theory Spec2Isabelle
  imports
    Main
    "HOL-Library.Char_ord"
    "HOL-Library.List_Lexorder"
    "HOL-Library.Finite_Map"
begin

section \<open>Data model\<close>

text \<open>
  Go strings are byte sequences; \<^typ>\<open>string\<close> is a list of 8-bit characters, ordered
  bytewise and lexicographically (\<open>Char_ord\<close>, \<open>List_Lexorder\<close>), which is the order
  \<^verbatim>\<open>slices.Sort\<close> uses on \<^verbatim>\<open>[]string\<close>.

  \<^verbatim>\<open>url.Values\<close> is \<^verbatim>\<open>map[string][]string\<close>: a finite map. Where the code
  distinguishes a nil map from an empty one (the rejected parameters that \<^verbatim>\<open>Build\<close>
  returns), the model uses an option: \<open>None\<close> is nil.
\<close>

type_synonym Values = "(string, string list) fmap"

text \<open>The errors of the package. \<^verbatim>\<open>fmt.Errorf\<close> values carry their message.\<close>

datatype error =
    errAttemptedToPassEmptyFilteringParams
  | ErrWrongQueryParamName string
  | ErrWrongOperator string string
  | Errorf string

definition OPERATOR_SEPARATOR :: string where "OPERATOR_SEPARATOR = ''__''"
definition OPERATOR_IN :: string where "OPERATOR_IN = ''in''"
definition OPERATOR_NOT_IN :: string where "OPERATOR_NOT_IN = ''not_in''"
definition OPERATOR_LIKE :: string where "OPERATOR_LIKE = ''like''"

definition QUERY_TOKEN_IN :: string where "QUERY_TOKEN_IN = ''IN''"
definition QUERY_TOKEN_NOT_IN :: string where "QUERY_TOKEN_NOT_IN = ''NOT IN''"
definition QUERY_TOKEN_EQUALS :: string where "QUERY_TOKEN_EQUALS = ''=''"
definition QUERY_TOKEN_NOT_EQUALS :: string where "QUERY_TOKEN_NOT_EQUALS = ''<>''"
definition QUERY_TOKEN_LIKE :: string where "QUERY_TOKEN_LIKE = ''LIKE''"

text \<open>The table \<^verbatim>\<open>OPERATORS\<close>: lookup-suffix token to SQL token.\<close>

definition OPERATORS :: "string \<rightharpoonup> string" where
  "OPERATORS = [OPERATOR_IN \<mapsto> QUERY_TOKEN_IN,
                OPERATOR_NOT_IN \<mapsto> QUERY_TOKEN_NOT_IN,
                OPERATOR_LIKE \<mapsto> QUERY_TOKEN_LIKE]"

record Filter =
  SqlFilters :: string
  PlaceholderValues :: "string list"

text \<open>The zero value \<^verbatim>\<open>Filter{}\<close>. Slices are lists: a nil slice and an empty one are
  both \<open>[]\<close> (the code only takes their length and ranges over them).\<close>

definition Filter_zero :: Filter where
  "Filter_zero = \<lparr>SqlFilters = [], PlaceholderValues = []\<rparr>"

type_synonym AllowedColumns = "string \<rightharpoonup> (string \<Rightarrow> string)"

record filterParam =
  Name :: string
  QueryToken :: string
  Values :: "string list"

section \<open>The library functions the code calls\<close>

text \<open>
  \<^verbatim>\<open>strings.Contains(s, substr)\<close>: some suffix of \<open>s\<close> starts with \<open>substr\<close>.
\<close>

fun Contains :: "string \<Rightarrow> string \<Rightarrow> bool" where
  "Contains [] substr = (substr = [])"
| "Contains (c # cs) substr =
     (take (length substr) (c # cs) = substr \<or> Contains cs substr)"

text \<open>
  \<^verbatim>\<open>strings.Split(s, sep)\<close> for a non-empty separator: the pieces between the
  non-overlapping occurrences of \<open>sep\<close>, found leftmost first; always at least one piece.
  (With an empty separator Go explodes the string into its UTF-8 sequences; the code only
  ever passes \<^verbatim>\<open>OPERATOR_SEPARATOR\<close>, and the model returns \<open>[s]\<close> there.)
\<close>

function Split :: "string \<Rightarrow> string \<Rightarrow> string list" where
  "Split [] sep = [[]]"
| "Split (c # cs) sep =
     (if sep \<noteq> [] \<and> take (length sep) (c # cs) = sep
      then [] # Split (drop (length sep) (c # cs)) sep
      else (case Split cs sep of
              [] \<Rightarrow> [[c]]
            | h # t \<Rightarrow> (c # h) # t))"
  by pat_completeness auto
termination
  by (relation "measure (\<lambda>(s, sep). length s)") auto

text \<open>
  \<^verbatim>\<open>strings.ToUpper\<close> on ASCII input: the letters a to z move to A to Z, every other
  byte stays. The code applies it to the SQL token of a parameter only, which comes from
  the \<^verbatim>\<open>OPERATORS\<close> table and is ASCII.
\<close>

definition toUpperChar :: "char \<Rightarrow> char" where
  "toUpperChar c =
     (if CHR ''a'' \<le> c \<and> c \<le> CHR ''z'' then char_of (of_char c - (32::nat)) else c)"

definition ToUpper :: "string \<Rightarrow> string" where
  "ToUpper s = map toUpperChar s"

text \<open>
  Modelled from the spec: the ordered map \<^verbatim>\<open>omap.Omap\<close> of the library
  \<^verbatim>\<open>github.com/kirill-scherba/omap\<close>, which the package imports and whose source is
  not part of the repository. The spec calls it an order-preserving mapping container that
  records a parameter keyed by its name, preserving order; the code sorts the keys itself
  before it inserts them. So: the pairs in insertion order, one pair to a key.
  \<^verbatim>\<open>Set\<close> on a key that is present replaces its value where it stands, and appends
  the pair otherwise; \<^verbatim>\<open>Pairs\<close> returns the pairs as a slice, so a \<^verbatim>\<open>Del\<close>
  inside a loop over it does not disturb the loop; \<^verbatim>\<open>omap.New\<close> without sort indexes
  does not fail.
\<close>

type_synonym ('k, 'v) Omap = "('k \<times> 'v) list"

definition omap_New :: "('k, 'v) Omap" where
  "omap_New = []"

fun omap_Set :: "'k \<Rightarrow> 'v \<Rightarrow> ('k, 'v) Omap \<Rightarrow> ('k, 'v) Omap" where
  "omap_Set k v [] = [(k, v)]"
| "omap_Set k v ((k', v') # m) =
     (if k' = k then (k, v) # m else (k', v') # omap_Set k v m)"

definition omap_Del :: "'k \<Rightarrow> ('k, 'v) Omap \<Rightarrow> ('k, 'v) Omap" where
  "omap_Del k m = filter (\<lambda>p. fst p \<noteq> k) m"

definition omap_Len :: "('k, 'v) Omap \<Rightarrow> nat" where
  "omap_Len m = length m"

definition omap_Pairs :: "('k, 'v) Omap \<Rightarrow> ('k \<times> 'v) list" where
  "omap_Pairs m = m"

section \<open>The package\<close>

subsection \<open>\<^verbatim>\<open>newFilterParam\<close>\<close>

definition newFilterParam :: "string \<Rightarrow> string \<Rightarrow> string list \<Rightarrow> error + filterParam" where
  "newFilterParam name operator vals =
     (if length vals = 0 then Inl (Errorf ''passed empty values to filterParam'')
      else if operator = [] then
        Inr \<lparr>Name = name, QueryToken = QUERY_TOKEN_IN, Values = vals\<rparr>
      else if operator = OPERATOR_LIKE \<and> length vals > 1 then
        Inl (Errorf ''like operator only supports single value'')
      else (case OPERATORS operator of
              None \<Rightarrow> Inl (ErrWrongOperator operator name)
            | Some queryToken \<Rightarrow>
                Inr \<lparr>Name = name, QueryToken = queryToken, Values = vals\<rparr>))"

subsection \<open>\<^verbatim>\<open>filterParam.Sql\<close> and \<^verbatim>\<open>buildPhrase\<close>\<close>

text \<open>The loop \<^verbatim>\<open>for range values { phrase += "?," }\<close>.\<close>

fun appendPlaceholders :: "string list \<Rightarrow> string \<Rightarrow> string" where
  "appendPlaceholders [] phrase = phrase"
| "appendPlaceholders (v # vs) phrase = appendPlaceholders vs (phrase @ ''?,'')"

text \<open>\<^verbatim>\<open>phrase[:len(phrase)-1]\<close> is \<open>butlast\<close>; the phrase is never empty there.\<close>

definition buildPhrase :: "string \<Rightarrow> string \<Rightarrow> string list \<Rightarrow> string" where
  "buildPhrase columnName operatorName vals =
     (let phrase = columnName @ '' '' @ ToUpper operatorName @ '' ('';
          phrase = appendPlaceholders vals phrase;
          phrase = butlast phrase
      in phrase @ '')'')"

definition Sql :: "filterParam \<Rightarrow> string" where
  "Sql fp =
     (if length (Values fp) = 1 \<and> QueryToken fp = QUERY_TOKEN_IN then
        Name fp @ '' '' @ QUERY_TOKEN_EQUALS @ '' ?''
      else if length (Values fp) = 1 \<and> QueryToken fp = QUERY_TOKEN_NOT_IN then
        Name fp @ '' '' @ QUERY_TOKEN_NOT_EQUALS @ '' ?''
      else if QueryToken fp = QUERY_TOKEN_LIKE then
        ''LOWER('' @ Name fp @ '') '' @ QUERY_TOKEN_LIKE @ '' CONCAT('%', ?, '%')''
      else buildPhrase (Name fp) (QueryToken fp) (Values fp))"

subsection \<open>\<^verbatim>\<open>splitParamName\<close>\<close>

text \<open>\<^verbatim>\<open>res[0]\<close> and \<^verbatim>\<open>res[1]\<close> are in range where the code reads them:
  \<^verbatim>\<open>strings.Split\<close> returns at least one piece, and \<open>res[1]\<close> is read after
  \<^verbatim>\<open>len(res) != 2\<close> has been excluded.\<close>

definition splitParamName :: "string \<Rightarrow> string list \<Rightarrow> error + filterParam" where
  "splitParamName paramName paramValues =
     (let res = Split paramName OPERATOR_SEPARATOR in
      if \<not> Contains paramName OPERATOR_SEPARATOR then
        newFilterParam (res ! 0) [] paramValues
      else if length res \<noteq> 2 then Inl (ErrWrongQueryParamName paramName)
      else (let operator = res ! 1 in
            if OPERATORS operator = None then Inl (ErrWrongOperator operator paramName)
            else newFilterParam (res ! 0) (res ! 1) paramValues))"

subsection \<open>\<^verbatim>\<open>getOrderedGetParams\<close>\<close>

text \<open>The keys of the map, sorted, each set in turn in a fresh ordered map.\<close>

definition getOrderedGetParams :: "Values \<Rightarrow> (string, string list) Omap" where
  "getOrderedGetParams getParams =
     (let getParamsKeys = sorted_list_of_fset (fmdom getParams) in
      fold (\<lambda>key orderedGetParams.
              omap_Set key (the (fmlookup getParams key)) orderedGetParams)
           getParamsKeys omap_New)"

subsection \<open>\<^verbatim>\<open>getValidQueryParams\<close>\<close>

text \<open>
  The loop over \<^verbatim>\<open>getParams.Pairs()\<close>. Its state is the ordered map \<open>getParams\<close>
  (from which each processed key is deleted), \<open>validParams\<close> and \<open>removedParams\<close>. It
  returns from inside on the first key that does not parse, with \<open>removedParams\<close> as it
  stands (a non-nil map); after the loop an empty \<open>removedParams\<close> becomes nil.
\<close>

fun validLoop ::
  "AllowedColumns \<Rightarrow> (string \<times> string list) list \<Rightarrow> (string, string list) Omap \<Rightarrow>
   (string, filterParam) Omap \<Rightarrow> Values \<Rightarrow>
   (string, filterParam) Omap \<times> Values option \<times> error option" where
  "validLoop filterAllowedColumnNames [] getParams validParams removedParams =
     (validParams,
      (if fcard (fmdom removedParams) = 0 then None else Some removedParams),
      None)"
| "validLoop filterAllowedColumnNames ((querystringFilterParamName, filterParamValues) # rest)
       getParams validParams removedParams =
     (case splitParamName querystringFilterParamName filterParamValues of
        Inl err \<Rightarrow> (validParams, Some removedParams, Some err)
      | Inr filterParam \<Rightarrow>
          (case filterAllowedColumnNames (Name filterParam) of
             Some colNameConverterFunc \<Rightarrow>
               (let filterParam = filterParam\<lparr>Name := colNameConverterFunc (Name filterParam)\<rparr>
                in validLoop filterAllowedColumnNames rest
                     (omap_Del querystringFilterParamName getParams)
                     (omap_Set (Name filterParam) filterParam validParams)
                     removedParams)
           | None \<Rightarrow>
               validLoop filterAllowedColumnNames rest
                 (omap_Del querystringFilterParamName getParams)
                 validParams
                 (fmupd querystringFilterParamName filterParamValues removedParams)))"

definition getValidQueryParams ::
  "AllowedColumns \<Rightarrow> (string, string list) Omap \<Rightarrow>
   (string, filterParam) Omap \<times> Values option \<times> error option" where
  "getValidQueryParams filterAllowedColumnNames getParams =
     (let validParams = omap_New in
      if omap_Len getParams = 0 then
        (validParams, None, Some errAttemptedToPassEmptyFilteringParams)
      else validLoop filterAllowedColumnNames (omap_Pairs getParams) getParams
             validParams fmempty)"

subsection \<open>\<^verbatim>\<open>buildQueryFilters\<close>\<close>

text \<open>The loop state is \<open>(queryFilters, queryParamsValues, filtersCount)\<close>; \<open>n\<close> is
  \<^verbatim>\<open>validParams.Len()\<close>.\<close>

fun filtersLoop ::
  "(string \<times> filterParam) list \<Rightarrow> nat \<Rightarrow> string \<times> string list \<times> nat \<Rightarrow>
   string \<times> string list \<times> nat" where
  "filtersLoop [] n st = st"
| "filtersLoop (mapPair # rest) n (queryFilters, queryParamsValues, filtersCount) =
     (let queryFilters = queryFilters @ Sql (snd mapPair);
          filtersCount = filtersCount + 1;
          queryFilters = (if filtersCount < n then queryFilters @ '' AND '' else queryFilters);
          queryParamsValues = queryParamsValues @ Values (snd mapPair)
      in filtersLoop rest n (queryFilters, queryParamsValues, filtersCount))"

definition buildQueryFilters :: "(string, filterParam) Omap \<Rightarrow> Filter" where
  "buildQueryFilters validParams =
     (case filtersLoop (omap_Pairs validParams) (omap_Len validParams) ([], [], 0) of
        (queryFilters, queryParamsValues, filtersCount) \<Rightarrow>
          \<lparr>SqlFilters = queryFilters, PlaceholderValues = queryParamsValues\<rparr>)"

subsection \<open>\<^verbatim>\<open>Build\<close>\<close>

definition Build :: "AllowedColumns \<Rightarrow> Values \<Rightarrow> Filter \<times> Values option \<times> error option" where
  "Build filterAllowedColumnNames getParams =
     (let orderedGetParams = getOrderedGetParams getParams in
      case getValidQueryParams filterAllowedColumnNames orderedGetParams of
        (validParams, invalidParams, Some err) \<Rightarrow> (Filter_zero, invalidParams, Some err)
      | (validParams, invalidParams, None) \<Rightarrow>
          (buildQueryFilters validParams, invalidParams, None))"

section \<open>Notions used to state the properties\<close>

text \<open>\<open>Join xs sep\<close>: the strings \<open>xs\<close> with \<open>sep\<close> between neighbours, no separator
  before the first or after the last.\<close>

fun Join :: "string list \<Rightarrow> string \<Rightarrow> string" where
  "Join [] sep = []"
| "Join [x] sep = x"
| "Join (x # y # r) sep = x @ sep @ Join (y # r) sep"

text \<open>The number of non-overlapping occurrences of \<open>sep\<close> in \<open>s\<close>, counted from the left,
  as \<^verbatim>\<open>strings.Count\<close> does for a non-empty separator.\<close>

function Count :: "string \<Rightarrow> string \<Rightarrow> nat" where
  "Count [] sep = 0"
| "Count (c # cs) sep =
     (if sep \<noteq> [] \<and> take (length sep) (c # cs) = sep
      then Suc (Count (drop (length sep) (c # cs)) sep)
      else Count cs sep)"
  by pat_completeness auto
termination
  by (relation "measure (\<lambda>(s, sep). length s)") auto

text \<open>The three components of the result of \<open>validLoop\<close>, each as a function of the
  pairs alone: the error of the first key that does not parse, and the rejected and the
  valid parameters gathered up to there.\<close>

fun firstError :: "(string \<times> string list) list \<Rightarrow> error option" where
  "firstError [] = None"
| "firstError ((k, vs) # rest) =
     (case splitParamName k vs of Inl err \<Rightarrow> Some err | Inr fp \<Rightarrow> firstError rest)"

fun removedUpTo :: "AllowedColumns \<Rightarrow> (string \<times> string list) list \<Rightarrow> Values \<Rightarrow> Values" where
  "removedUpTo wl [] removed = removed"
| "removedUpTo wl ((k, vs) # rest) removed =
     (case splitParamName k vs of
        Inl err \<Rightarrow> removed
      | Inr fp \<Rightarrow>
          (case wl (Name fp) of
             Some f \<Rightarrow> removedUpTo wl rest removed
           | None \<Rightarrow> removedUpTo wl rest (fmupd k vs removed)))"

fun validUpTo ::
  "AllowedColumns \<Rightarrow> (string \<times> string list) list \<Rightarrow> (string, filterParam) Omap \<Rightarrow>
   (string, filterParam) Omap" where
  "validUpTo wl [] valid = valid"
| "validUpTo wl ((k, vs) # rest) valid =
     (case splitParamName k vs of
        Inl err \<Rightarrow> valid
      | Inr fp \<Rightarrow>
          (case wl (Name fp) of
             Some f \<Rightarrow> validUpTo wl rest (omap_Set (f (Name fp)) (fp\<lparr>Name := f (Name fp)\<rparr>) valid)
           | None \<Rightarrow> validUpTo wl rest valid))"

text \<open>The parameter a key contributes to the valid parameters: it parses, its column is
  in the whitelist, and its name is the rewritten one.\<close>

definition finalParam :: "AllowedColumns \<Rightarrow> string \<Rightarrow> string list \<Rightarrow> filterParam option" where
  "finalParam wl k vs =
     (case splitParamName k vs of
        Inl err \<Rightarrow> None
      | Inr fp \<Rightarrow>
          (case wl (Name fp) of
             None \<Rightarrow> None
           | Some f \<Rightarrow> Some (fp\<lparr>Name := f (Name fp)\<rparr>)))"

text \<open>The valid parameters of a request in ascending order of their raw keys.\<close>

definition validInKeyOrder :: "AllowedColumns \<Rightarrow> Values \<Rightarrow> filterParam list" where
  "validInKeyOrder wl raw =
     List.map_filter (\<lambda>k. finalParam wl k (the (fmlookup raw k)))
       (sorted_list_of_fset (fmdom raw))"

section \<open>The loops in closed form\<close>


lemma keys_sorted: "sorted (sorted_list_of_fset S)"
  by (simp add: sorted_list_of_fset.rep_eq)
lemma keys_distinct: "distinct (sorted_list_of_fset S)"
  by (simp add: sorted_list_of_fset.rep_eq)

lemma Join_Cons: "ps \<noteq> [] \<Longrightarrow> Join (x # ps) sep = x @ sep @ Join ps sep"
  by (cases ps) simp_all

lemma omap_Set_fresh: "k \<notin> fst ` set m \<Longrightarrow> omap_Set k v m = m @ [(k, v)]"
  by (induction m) auto

lemma fold_omap_Set_fresh:
  "distinct ks \<Longrightarrow> set ks \<inter> fst ` set m = {} \<Longrightarrow>
   fold (\<lambda>k. omap_Set k (g k)) ks m = m @ map (\<lambda>k. (k, g k)) ks"
proof (induction ks arbitrary: m)
  case Nil
  then show ?case by simp
next
  case (Cons k ks)
  have "k \<notin> fst ` set m" using Cons.prems by auto
  then have s: "omap_Set k (g k) m = m @ [(k, g k)]" by (rule omap_Set_fresh)
  have "set ks \<inter> fst ` set (m @ [(k, g k)]) = {}" using Cons.prems by auto
  with Cons.IH [of "m @ [(k, g k)]"] Cons.prems s show ?case by simp
qed

lemma getOrderedGetParams_eq: "getOrderedGetParams raw = sorted_list_of_fmap raw"
  unfolding getOrderedGetParams_def sorted_list_of_fmap_def Let_def omap_New_def
  using fold_omap_Set_fresh [of "sorted_list_of_fset (fmdom raw)" "[]" "\<lambda>k. the (fmlookup raw k)"]
  by (simp add: keys_distinct)

lemma filtersLoop_eq:
  "c + length ps = n \<Longrightarrow>
   filtersLoop ps n (qf, vs, c) =
     (qf @ Join (map (\<lambda>p. Sql (snd p)) ps) '' AND '', vs @ concat (map (\<lambda>p. Values (snd p)) ps), n)"
proof (induction ps arbitrary: qf vs c)
  case Nil
  then show ?case by simp
next
  case (Cons p ps)
  show ?case
  proof (cases ps)
    case Nil
    with Cons.prems show ?thesis by simp
  next
    case (Cons q qs)
    then have ne: "ps \<noteq> []" by simp
    with Cons.prems have lt: "c + 1 < n" by (cases ps) simp_all
    have "Suc c + length ps = n" using Cons.prems by simp
    from Cons.IH [OF this] lt ne show ?thesis by (simp add: Let_def Join_Cons)
  qed
qed

lemma buildQueryFilters_eq:
  "buildQueryFilters vp =
     \<lparr>SqlFilters = Join (map (\<lambda>p. Sql (snd p)) vp) '' AND '',
      PlaceholderValues = concat (map (\<lambda>p. Values (snd p)) vp)\<rparr>"
  unfolding buildQueryFilters_def omap_Pairs_def omap_Len_def
  using filtersLoop_eq [of 0 vp "length vp" "[]" "[]"] by simp

lemma fmdom_fempty_iff: "fmdom m = {||} \<longleftrightarrow> m = fmempty"
proof
  assume "fmdom m = {||}"
  then have "\<And>x. fmlookup m x = None" by (metis fmdom_notD fempty_iff)
  then show "m = fmempty" by (intro fmap_ext) simp
qed simp

lemma validLoop_eq:
  "validLoop wl ps gp vp rm =
     (validUpTo wl ps vp,
      (if firstError ps = None \<and> fcard (fmdom (removedUpTo wl ps rm)) = 0 then None
       else Some (removedUpTo wl ps rm)),
      firstError ps)"
  by (induction wl ps gp vp rm rule: validLoop.induct)
     (auto simp: Let_def split: sum.splits option.splits)

lemma Build_eq:
  "Build wl raw =
     (let ps = sorted_list_of_fmap raw in
      if ps = [] then (Filter_zero, None, Some errAttemptedToPassEmptyFilteringParams)
      else (case firstError ps of
              Some err \<Rightarrow> (Filter_zero, Some (removedUpTo wl ps fmempty), Some err)
            | None \<Rightarrow>
                (buildQueryFilters (validUpTo wl ps []),
                 (if removedUpTo wl ps fmempty = fmempty then None
                  else Some (removedUpTo wl ps fmempty)),
                 None)))"
  unfolding Build_def getValidQueryParams_def getOrderedGetParams_eq validLoop_eq
    omap_Len_def omap_Pairs_def omap_New_def Let_def
  by (auto split: option.splits simp: fmdom_fempty_iff)

section \<open>The single-parameter builder\<close>

lemma appendPlaceholders_eq:
  "appendPlaceholders vs phrase = phrase @ concat (replicate (length vs) ''?,'')"
  by (induction vs arbitrary: phrase) simp_all

lemma butlast_placeholders:
  "butlast (concat (replicate (Suc n) ''?,'')) = Join (replicate (Suc n) ''?'') '',''"
  by (induction n) simp_all

lemma buildPhrase_eq:
  "vs \<noteq> [] \<Longrightarrow>
   buildPhrase col op vs =
     col @ '' '' @ ToUpper op @ '' ('' @ Join (replicate (length vs) ''?'') '','' @ '')''"
proof -
  assume "vs \<noteq> []"
  then obtain n where n: "length vs = Suc n" by (cases vs) auto
  have ne: "concat (replicate (Suc n) ''?,'') \<noteq> []" by simp
  show ?thesis
    unfolding buildPhrase_def Let_def appendPlaceholders_eq n
    using butlast_placeholders [of n] ne
    by (simp add: butlast_append del: replicate.simps)
qed

lemma ToUpper_tokens:
  "ToUpper QUERY_TOKEN_IN = QUERY_TOKEN_IN"
  "ToUpper QUERY_TOKEN_NOT_IN = QUERY_TOKEN_NOT_IN"
  by (simp_all add: ToUpper_def toUpperChar_def QUERY_TOKEN_IN_def QUERY_TOKEN_NOT_IN_def
        less_eq_char_def)

text \<open>
  Claim C3. The SQL of one parameter: with one value and token \<open>IN\<close> it is
  \<open>column = ?\<close>; with one value and token \<open>NOT IN\<close> it is \<open>column <> ?\<close>; with token
  \<open>LIKE\<close> it is \<open>LOWER(column) LIKE CONCAT('%', ?, '%')\<close>; with token \<open>IN\<close> or
  \<open>NOT IN\<close> and two or more values it is the column, the token, and in parentheses as
  many \<open>?\<close> as there are values, with a comma between neighbours and none at the end.
\<close>

theorem Sql_rules:
  "(length (Values fp) = 1 \<and> QueryToken fp = QUERY_TOKEN_IN \<longrightarrow>
      Sql fp = Name fp @ '' = ?'') \<and>
   (length (Values fp) = 1 \<and> QueryToken fp = QUERY_TOKEN_NOT_IN \<longrightarrow>
      Sql fp = Name fp @ '' <> ?'') \<and>
   (QueryToken fp = QUERY_TOKEN_LIKE \<longrightarrow>
      Sql fp = ''LOWER('' @ Name fp @ '') LIKE CONCAT('%', ?, '%')'') \<and>
   (2 \<le> length (Values fp) \<and> QueryToken fp \<in> {QUERY_TOKEN_IN, QUERY_TOKEN_NOT_IN} \<longrightarrow>
      Sql fp = Name fp @ '' '' @ QueryToken fp @ '' (''
                 @ Join (replicate (length (Values fp)) ''?'') '','' @ '')'')"
proof (intro conjI impI)
  assume "length (Values fp) = 1 \<and> QueryToken fp = QUERY_TOKEN_IN"
  then show "Sql fp = Name fp @ '' = ?''"
    by (simp add: Sql_def QUERY_TOKEN_EQUALS_def)
next
  assume "length (Values fp) = 1 \<and> QueryToken fp = QUERY_TOKEN_NOT_IN"
  then show "Sql fp = Name fp @ '' <> ?''"
    by (simp add: Sql_def QUERY_TOKEN_NOT_EQUALS_def QUERY_TOKEN_IN_def QUERY_TOKEN_NOT_IN_def)
next
  assume "QueryToken fp = QUERY_TOKEN_LIKE"
  then show "Sql fp = ''LOWER('' @ Name fp @ '') LIKE CONCAT('%', ?, '%')''"
    by (simp add: Sql_def QUERY_TOKEN_LIKE_def QUERY_TOKEN_IN_def QUERY_TOKEN_NOT_IN_def)
next
  assume a: "2 \<le> length (Values fp) \<and> QueryToken fp \<in> {QUERY_TOKEN_IN, QUERY_TOKEN_NOT_IN}"
  then have ne: "Values fp \<noteq> []" by auto
  from a have up: "ToUpper (QueryToken fp) = QueryToken fp" using ToUpper_tokens by auto
  from a have nl: "QueryToken fp \<noteq> QUERY_TOKEN_LIKE"
    by (auto simp: QUERY_TOKEN_LIKE_def QUERY_TOKEN_IN_def QUERY_TOKEN_NOT_IN_def)
  from a have "length (Values fp) \<noteq> 1" by simp
  with nl show "Sql fp = Name fp @ '' '' @ QueryToken fp @ '' (''
                 @ Join (replicate (length (Values fp)) ''?'') '','' @ '')''"
    by (simp add: Sql_def buildPhrase_eq [OF ne] up)
qed

theorem Sql_rules_witness:
  "Sql \<lparr>Name = ''col1'', QueryToken = ''IN'', Values = [''1'']\<rparr> = ''col1 = ?'' \<and>
   Sql \<lparr>Name = ''col1'', QueryToken = ''NOT IN'', Values = [''1'']\<rparr> = ''col1 <> ?'' \<and>
   Sql \<lparr>Name = ''col1'', QueryToken = ''LIKE'', Values = [''foo'']\<rparr>
     = ''LOWER(col1) LIKE CONCAT('%', ?, '%')'' \<and>
   Sql \<lparr>Name = ''col1'', QueryToken = ''NOT IN'', Values = [''1'', ''2'', ''3'']\<rparr>
     = ''col1 NOT IN (?,?,?)''"
  using Sql_rules [of "\<lparr>Name = ''col1'', QueryToken = ''IN'', Values = [''1'']\<rparr>"]
        Sql_rules [of "\<lparr>Name = ''col1'', QueryToken = ''NOT IN'', Values = [''1'']\<rparr>"]
        Sql_rules [of "\<lparr>Name = ''col1'', QueryToken = ''LIKE'', Values = [''foo'']\<rparr>"]
        Sql_rules [of "\<lparr>Name = ''col1'', QueryToken = ''NOT IN'', Values = [''1'', ''2'', ''3'']\<rparr>"]
  by (simp add: QUERY_TOKEN_IN_def QUERY_TOKEN_NOT_IN_def QUERY_TOKEN_LIKE_def numeral_3_eq_3)

section \<open>The entry point\<close>

text \<open>
  Claim C8. For every whitelist, \<open>Build\<close> on an empty map of raw parameters returns the
  error \<open>errAttemptedToPassEmptyFilteringParams\<close> (with the zero filter and nil rejected
  parameters).
\<close>

theorem Build_empty:
  "Build wl fmempty = (Filter_zero, None, Some errAttemptedToPassEmptyFilteringParams)"
  by (simp add: Build_eq sorted_list_of_fmap_def sorted_list_of_fset.rep_eq)

section \<open>Splitting a parameter key\<close>


lemma Split_nonempty: "Split s sep \<noteq> []"
  by (induction s sep rule: Split.induct) (auto split: list.splits)

lemma Split_no_sep: "\<not> Contains s sep \<Longrightarrow> Split s sep = [s]"
  by (induction s sep rule: Split.induct) (auto split: list.splits)

lemma Contains_Split_length: "sep \<noteq> [] \<Longrightarrow> Contains s sep \<Longrightarrow> 2 \<le> length (Split s sep)"
proof (induction s sep rule: Split.induct)
  case (1 sep)
  then show ?case by simp
next
  case (2 c cs sep)
  show ?case
  proof (cases "take (length sep) (c # cs) = sep")
    case True
    with "2.prems" Split_nonempty [of "drop (length sep) (c # cs)" sep] show ?thesis
      by (cases "Split (drop (length sep) (c # cs)) sep") simp_all
  next
    case False
    with "2.prems" have "Contains cs sep" by simp
    with "2.IH"(2) "2.prems" False have "2 \<le> length (Split cs sep)" by simp
    with False show ?thesis by (cases "Split cs sep") simp_all
  qed
qed

lemma Split_length_Count: "length (Split s sep) = Suc (Count s sep)"
  by (induction s sep rule: Split.induct) (auto split: list.splits)

lemma Split_two_Contains:
  assumes "length (Split s OPERATOR_SEPARATOR) \<noteq> 1"
  shows "Contains s OPERATOR_SEPARATOR"
proof (rule ccontr)
  assume "\<not> Contains s OPERATOR_SEPARATOR"
  then have "Split s OPERATOR_SEPARATOR = [s]" by (rule Split_no_sep)
  with assms show False by simp
qed

lemma splitParamName_plain:
  "\<not> Contains k OPERATOR_SEPARATOR \<Longrightarrow> splitParamName k vs = newFilterParam k [] vs"
  by (simp add: splitParamName_def Split_no_sep)

lemma splitParamName_wrong_name:
  "2 < length (Split k OPERATOR_SEPARATOR) \<Longrightarrow>
   splitParamName k vs = Inl (ErrWrongQueryParamName k)"
  using Split_two_Contains [of k] by (simp add: splitParamName_def)

lemma splitParamName_two:
  "Split k OPERATOR_SEPARATOR = [c, op] \<Longrightarrow>
   splitParamName k vs =
     (if OPERATORS op = None then Inl (ErrWrongOperator op k) else newFilterParam c op vs)"
  using Split_two_Contains [of k] by (simp add: splitParamName_def Let_def)

lemma take_append_same:
  assumes "take (length sep) xs = sep"
  shows "take (length sep) (xs @ r) = sep"
proof -
  have "length (take (length sep) xs) = length sep" using assms by simp
  then have "length sep \<le> length xs" by simp
  with assms show ?thesis by simp
qed

lemma Contains_append_left: "Contains c sep \<Longrightarrow> Contains (c @ r) sep"
proof (induction c)
  case Nil
  then show ?case by (cases r) simp_all
next
  case (Cons a c)
  from Cons.prems have "take (length sep) (a # c) = sep \<or> Contains c sep" by simp
  then show ?case
  proof
    assume "take (length sep) (a # c) = sep"
    then have "take (length sep) ((a # c) @ r) = sep" by (rule take_append_same)
    then show ?thesis by simp
  next
    assume "Contains c sep"
    then have "Contains (c @ r) sep" by (rule Cons.IH)
    then show ?thesis by simp
  qed
qed

lemma Split_column_prefix:
  "\<not> Contains (c @ ''_'') ''__'' \<Longrightarrow> Split (c @ ''__'' @ r) ''__'' = c # Split r ''__''"
proof (induction c)
  case Nil
  then show ?case by simp
next
  case (Cons a c)
  from Cons.prems have nc: "\<not> Contains (c @ ''_'') ''__''" by simp
  from Cons.prems have nt: "take 2 ((a # c) @ ''_'') \<noteq> ''__''" by simp
  have "take 2 ((a # c) @ ''__'' @ r) \<noteq> ''__''"
  proof (cases c)
    case Nil
    with nt show ?thesis by simp
  next
    case (Cons b d)
    with nt show ?thesis by simp
  qed
  with Cons.IH [OF nc] show ?case by simp
qed

lemma no_sep_in_column:
  "\<not> Contains (c @ ''_'') ''__'' \<Longrightarrow> \<not> Contains c ''__''"
  using Contains_append_left [of c "''__''" "''_''"] by blast

lemma firstError_append:
  "firstError (xs @ ys) = (case firstError xs of None \<Rightarrow> firstError ys | Some e \<Rightarrow> Some e)"
  by (induction xs) (auto split: sum.splits)

lemma firstError_None_iff:
  "firstError ps = None \<longleftrightarrow> (\<forall>(k, vs) \<in> set ps. \<exists>fp. splitParamName k vs = Inr fp)"
  by (induction ps) (auto split: sum.splits)

lemma sorted_fmap_split:
  assumes "k |\<in>| fmdom raw"
  shows "\<exists>xs ys. sorted_list_of_fmap raw = xs @ (k, the (fmlookup raw k)) # ys \<and>
           (\<forall>p \<in> set xs. fst p < k \<and> fst p |\<in>| fmdom raw \<and> snd p = the (fmlookup raw (fst p))) \<and>
           (\<forall>p \<in> set ys. k < fst p \<and> fst p |\<in>| fmdom raw \<and> snd p = the (fmlookup raw (fst p)))"
proof -
  let ?ks = "sorted_list_of_fset (fmdom raw)"
  from assms have "k \<in> set ?ks" by simp
  then obtain as bs where ks: "?ks = as @ k # bs" by (meson split_list)
  have s: "sorted (as @ k # bs)" and d: "distinct (as @ k # bs)"
    using keys_sorted [of "fmdom raw"] keys_distinct [of "fmdom raw"] ks by simp_all
  have mem: "set as \<union> set bs \<subseteq> fset (fmdom raw)"
    using sorted_list_of_fset_simps(1) [of "fmdom raw"] ks by auto
  have lt: "\<forall>a \<in> set as. a < k" using s d by (auto simp: sorted_append less_le)
  have gt: "\<forall>b \<in> set bs. k < b" using s d by (auto simp: sorted_append less_le)
  let ?f = "\<lambda>k. (k, the (fmlookup raw k))"
  have "sorted_list_of_fmap raw = map ?f as @ ?f k # map ?f bs"
    by (simp add: sorted_list_of_fmap_def ks)
  moreover have "\<forall>p \<in> set (map ?f as). fst p < k \<and> fst p |\<in>| fmdom raw \<and> snd p = the (fmlookup raw (fst p))"
    using lt mem by auto
  moreover have "\<forall>p \<in> set (map ?f bs). k < fst p \<and> fst p |\<in>| fmdom raw \<and> snd p = the (fmlookup raw (fst p))"
    using gt mem by auto
  ultimately show ?thesis by blast
qed

section \<open>The error that \<open>Build\<close> returns\<close>


lemma sorted_fmap_nonempty: "k |\<in>| fmdom raw \<Longrightarrow> sorted_list_of_fmap raw \<noteq> []"
  using sorted_fmap_split [of k raw] by auto

lemma sorted_fmap_mem:
  "(k, v) \<in> set (sorted_list_of_fmap raw) \<Longrightarrow> fmlookup raw k = Some v"
  by (auto simp: sorted_list_of_fmap_def fmlookup_dom_iff)

lemma Build_error:
  "snd (snd (Build wl raw)) =
     (if sorted_list_of_fmap raw = [] then Some errAttemptedToPassEmptyFilteringParams
      else firstError (sorted_list_of_fmap raw))"
  by (simp add: Build_eq Let_def split: option.splits)

lemma Build_error_zero: "snd (snd (Build wl raw)) \<noteq> None \<Longrightarrow> fst (Build wl raw) = Filter_zero"
  by (simp add: Build_eq Let_def split: option.splits if_splits)

lemma Build_some_failure:
  assumes "k |\<in>| fmdom raw" and "splitParamName k (the (fmlookup raw k)) = Inl e"
  shows "snd (snd (Build wl raw)) \<noteq> None"
proof -
  from assms(1) obtain xs ys where
    ps: "sorted_list_of_fmap raw = xs @ (k, the (fmlookup raw k)) # ys"
    using sorted_fmap_split by blast
  with assms(2) have "firstError (sorted_list_of_fmap raw) \<noteq> None"
    by (simp add: firstError_append split: option.splits)
  with ps show ?thesis by (simp add: Build_error)
qed

lemma first_failure:
  assumes "k |\<in>| fmdom raw"
      and "\<forall>k'. k' |\<in>| fmdom raw \<and> k' < k \<longrightarrow>
             (\<exists>fp. splitParamName k' (the (fmlookup raw k')) = Inr fp)"
  shows "\<exists>xs ys. sorted_list_of_fmap raw = xs @ (k, the (fmlookup raw k)) # ys \<and>
           firstError xs = None \<and>
           (\<forall>p \<in> set xs. fst p < k \<and> fst p |\<in>| fmdom raw \<and> snd p = the (fmlookup raw (fst p))) \<and>
           (\<forall>p \<in> set ys. k < fst p \<and> fst p |\<in>| fmdom raw \<and> snd p = the (fmlookup raw (fst p)))"
proof -
  from assms(1) obtain xs ys where
    ps: "sorted_list_of_fmap raw = xs @ (k, the (fmlookup raw k)) # ys" and
    xs: "\<forall>p \<in> set xs. fst p < k \<and> fst p |\<in>| fmdom raw \<and> snd p = the (fmlookup raw (fst p))" and
    ys: "\<forall>p \<in> set ys. k < fst p \<and> fst p |\<in>| fmdom raw \<and> snd p = the (fmlookup raw (fst p))"
    using sorted_fmap_split by blast
  have "firstError xs = None"
    unfolding firstError_None_iff using xs assms(2) by fastforce
  with ps xs ys show ?thesis by blast
qed

lemma Build_first_failure:
  assumes "k |\<in>| fmdom raw"
      and "\<forall>k'. k' |\<in>| fmdom raw \<and> k' < k \<longrightarrow>
             (\<exists>fp. splitParamName k' (the (fmlookup raw k')) = Inr fp)"
      and "splitParamName k (the (fmlookup raw k)) = Inl e"
  shows "fst (Build wl raw) = Filter_zero \<and> snd (snd (Build wl raw)) = Some e"
proof -
  from first_failure [OF assms(1,2)] obtain xs ys where
    ps: "sorted_list_of_fmap raw = xs @ (k, the (fmlookup raw k)) # ys" and
    ok: "firstError xs = None" by blast
  have "firstError (sorted_list_of_fmap raw) = Some e"
    by (simp add: ps firstError_append ok assms(3))
  moreover have "sorted_list_of_fmap raw \<noteq> []" by (simp add: ps)
  ultimately have "snd (snd (Build wl raw)) = Some e" by (simp add: Build_error)
  then show ?thesis using Build_error_zero [of wl raw] by simp
qed

lemma OPERATORS_None_iff:
  "OPERATORS op = None \<longleftrightarrow> op \<notin> {OPERATOR_IN, OPERATOR_NOT_IN, OPERATOR_LIKE}"
  by (auto simp: OPERATORS_def)

lemma two_segments: "length xs = 2 \<Longrightarrow> xs = [xs ! 0, xs ! 1]"
  by (cases xs; cases "tl xs") auto

section \<open>Malformed keys\<close>

lemma only_key_first:
  "\<forall>k'. k' |\<in>| fmdom (fmupd k v fmempty) \<and> k' < (k :: string) \<longrightarrow> P k'"
  by simp


text \<open>
  Claim C5. A key that splits into more than two segments (more than one occurrence of the
  separator, counted left to right without overlap) or into two segments with an operator
  token outside \<open>in\<close>, \<open>not_in\<close>, \<open>like\<close> makes \<open>Build\<close> return an error and the zero
  filter, whatever else the request holds. The scan stops at the first key, in sorted order,
  that does not parse: when every key sorted before this one parses, the error is
  \<open>ErrWrongQueryParamName\<close> with the key in the first case, and \<open>ErrWrongOperator\<close> with the
  token and the full key in the second. (Without that condition the error returned is the
  one of an earlier key, as the counterexample shows.)
\<close>

theorem malformed_key_error:
  assumes "k |\<in>| fmdom raw"
  shows "(1 < Count k OPERATOR_SEPARATOR \<or> 2 < length (Split k OPERATOR_SEPARATOR) \<or>
          (length (Split k OPERATOR_SEPARATOR) = 2 \<and>
           Split k OPERATOR_SEPARATOR ! 1 \<notin> {OPERATOR_IN, OPERATOR_NOT_IN, OPERATOR_LIKE}) \<longrightarrow>
            fst (Build wl raw) = Filter_zero \<and> snd (snd (Build wl raw)) \<noteq> None)
       \<and> ((\<forall>k'. k' |\<in>| fmdom raw \<and> k' < k \<longrightarrow>
              (\<exists>fp. splitParamName k' (the (fmlookup raw k')) = Inr fp)) \<longrightarrow>
           (1 < Count k OPERATOR_SEPARATOR \<or> 2 < length (Split k OPERATOR_SEPARATOR) \<longrightarrow>
              fst (Build wl raw) = Filter_zero \<and>
              snd (snd (Build wl raw)) = Some (ErrWrongQueryParamName k)) \<and>
           (length (Split k OPERATOR_SEPARATOR) = 2 \<and>
            Split k OPERATOR_SEPARATOR ! 1 \<notin> {OPERATOR_IN, OPERATOR_NOT_IN, OPERATOR_LIKE} \<longrightarrow>
              fst (Build wl raw) = Filter_zero \<and>
              snd (snd (Build wl raw)) =
                Some (ErrWrongOperator (Split k OPERATOR_SEPARATOR ! 1) k)))"
proof -
  let ?res = "Split k OPERATOR_SEPARATOR"
  let ?v = "the (fmlookup raw k)"
  have name: "splitParamName k ?v = Inl (ErrWrongQueryParamName k)"
    if "1 < Count k OPERATOR_SEPARATOR \<or> 2 < length ?res"
  proof -
    from that have "2 < length ?res" by (auto simp: Split_length_Count)
    then show ?thesis by (rule splitParamName_wrong_name)
  qed
  have oper: "splitParamName k ?v = Inl (ErrWrongOperator (?res ! 1) k)"
    if "length ?res = 2 \<and> ?res ! 1 \<notin> {OPERATOR_IN, OPERATOR_NOT_IN, OPERATOR_LIKE}"
  proof -
    from that have "?res = [?res ! 0, ?res ! 1]" using two_segments by blast
    from splitParamName_two [OF this, of ?v] that show ?thesis
      by (simp add: OPERATORS_None_iff)
  qed
  have any: "fst (Build wl raw) = Filter_zero \<and> snd (snd (Build wl raw)) \<noteq> None"
    if "splitParamName k ?v = Inl e" for e
    using Build_some_failure [OF assms that, of wl] Build_error_zero [of wl raw] by simp
  show ?thesis
  proof (intro conjI impI)
    assume "1 < Count k OPERATOR_SEPARATOR \<or> 2 < length ?res \<or>
            (length ?res = 2 \<and> ?res ! 1 \<notin> {OPERATOR_IN, OPERATOR_NOT_IN, OPERATOR_LIKE})"
    then obtain e where e: "splitParamName k ?v = Inl e" using name oper by blast
    from any [OF e] show "fst (Build wl raw) = Filter_zero" by simp
    from any [OF e] show "snd (snd (Build wl raw)) \<noteq> None" by simp
  next
    assume first: "\<forall>k'. k' |\<in>| fmdom raw \<and> k' < k \<longrightarrow>
              (\<exists>fp. splitParamName k' (the (fmlookup raw k')) = Inr fp)"
       and bad: "1 < Count k OPERATOR_SEPARATOR \<or> 2 < length ?res"
    from Build_first_failure [OF assms first name [OF bad], of wl]
    show "fst (Build wl raw) = Filter_zero"
      and "snd (snd (Build wl raw)) = Some (ErrWrongQueryParamName k)" by simp_all
  next
    assume first: "\<forall>k'. k' |\<in>| fmdom raw \<and> k' < k \<longrightarrow>
              (\<exists>fp. splitParamName k' (the (fmlookup raw k')) = Inr fp)"
       and bad: "length ?res = 2 \<and> ?res ! 1 \<notin> {OPERATOR_IN, OPERATOR_NOT_IN, OPERATOR_LIKE}"
    from Build_first_failure [OF assms first oper [OF bad], of wl]
    show "fst (Build wl raw) = Filter_zero"
      and "snd (snd (Build wl raw)) = Some (ErrWrongOperator (?res ! 1) k)" by simp_all
  qed
qed


theorem malformed_key_error_witness:
  "fst (Build Map.empty (fmupd ''a__b__c'' [''1''] fmempty)) = Filter_zero \<and>
   snd (snd (Build Map.empty (fmupd ''a__b__c'' [''1''] fmempty)))
     = Some (ErrWrongQueryParamName ''a__b__c'') \<and>
   fst (Build Map.empty (fmupd ''col__between'' [''1''] fmempty)) = Filter_zero \<and>
   snd (snd (Build Map.empty (fmupd ''col__between'' [''1''] fmempty)))
     = Some (ErrWrongOperator ''between'' ''col__between'')"
proof -
  have k1: "''a__b__c'' |\<in>| fmdom (fmupd ''a__b__c'' [''1''] fmempty)" by simp
  have k2: "''col__between'' |\<in>| fmdom (fmupd ''col__between'' [''1''] fmempty)" by simp
  have s1: "Split ''a__b__c'' OPERATOR_SEPARATOR = [''a'', ''b'', ''c'']"
    by (simp add: OPERATOR_SEPARATOR_def)
  have s2: "Split ''col__between'' OPERATOR_SEPARATOR = [''col'', ''between'']"
    by (simp add: OPERATOR_SEPARATOR_def)
  have n2: "''between'' \<notin> {OPERATOR_IN, OPERATOR_NOT_IN, OPERATOR_LIKE}"
    by (simp add: OPERATOR_IN_def OPERATOR_NOT_IN_def OPERATOR_LIKE_def)
  from malformed_key_error [OF k1, of Map.empty] only_key_first s1
  have a: "fst (Build Map.empty (fmupd ''a__b__c'' [''1''] fmempty)) = Filter_zero \<and>
   snd (snd (Build Map.empty (fmupd ''a__b__c'' [''1''] fmempty)))
     = Some (ErrWrongQueryParamName ''a__b__c'')" by simp
  from malformed_key_error [OF k2, of Map.empty] only_key_first s2 n2
  have b: "fst (Build Map.empty (fmupd ''col__between'' [''1''] fmempty)) = Filter_zero \<and>
   snd (snd (Build Map.empty (fmupd ''col__between'' [''1''] fmempty)))
     = Some (ErrWrongOperator ''between'' ''col__between'')" by simp
  from a b show ?thesis by simp
qed

theorem malformed_key_error_counterexample:
  "''b__c__d'' |\<in>| fmdom (fmupd ''a__zz'' [''1''] (fmupd ''b__c__d'' [''1''] fmempty)) \<and>
   Split ''b__c__d'' OPERATOR_SEPARATOR = [''b'', ''c'', ''d''] \<and>
   Build Map.empty (fmupd ''a__zz'' [''1''] (fmupd ''b__c__d'' [''1''] fmempty))
     = (Filter_zero, Some fmempty, Some (ErrWrongOperator ''zz'' ''a__zz'')) \<and>
   snd (snd (Build Map.empty (fmupd ''a__zz'' [''1''] (fmupd ''b__c__d'' [''1''] fmempty))))
     \<noteq> Some (ErrWrongQueryParamName ''b__c__d'')"
proof -
  have "Build Map.empty (fmupd ''a__zz'' [''1''] (fmupd ''b__c__d'' [''1''] fmempty))
     = (Filter_zero, Some fmempty, Some (ErrWrongOperator ''zz'' ''a__zz''))"
    by code_simp
  moreover have "Split ''b__c__d'' OPERATOR_SEPARATOR = [''b'', ''c'', ''d'']"
    by (simp add: OPERATOR_SEPARATOR_def)
  ultimately show ?thesis by simp
qed

section \<open>Requests with one parameter; the rejected parameters\<close>


lemma sorted_fmap_single: "sorted_list_of_fmap (fmupd k v fmempty) = [(k, v)]"
  by (simp add: sorted_list_of_fmap_def sorted_list_of_fset.rep_eq)

lemma buildQueryFilters_Nil: "buildQueryFilters [] = Filter_zero"
  by (simp add: buildQueryFilters_eq Filter_zero_def)

lemma Build_single:
  "Build wl (fmupd k vs fmempty) =
     (case splitParamName k vs of
        Inl e \<Rightarrow> (Filter_zero, Some fmempty, Some e)
      | Inr fp \<Rightarrow>
          (case wl (Name fp) of
             Some f \<Rightarrow>
               (\<lparr>SqlFilters = Sql (fp\<lparr>Name := f (Name fp)\<rparr>), PlaceholderValues = Values fp\<rparr>,
                None, None)
           | None \<Rightarrow> (Filter_zero, Some (fmupd k vs fmempty), None)))"
  by (simp add: Build_eq sorted_fmap_single buildQueryFilters_eq Filter_zero_def
        split: sum.splits option.splits)

lemma finalParam_parses:
  "finalParam wl k vs \<noteq> None \<Longrightarrow> \<exists>fp. splitParamName k vs = Inr fp"
  by (auto simp: finalParam_def split: sum.splits)

lemma removedUpTo_all_valid:
  "\<forall>p \<in> set xs. finalParam wl (fst p) (snd p) \<noteq> None \<Longrightarrow> removedUpTo wl xs rm = rm"
  by (induction xs arbitrary: rm) (auto simp: finalParam_def split: sum.splits option.splits)

lemma removedUpTo_append:
  "removedUpTo wl (xs @ ys) rm =
     (if firstError xs = None then removedUpTo wl ys (removedUpTo wl xs rm)
      else removedUpTo wl xs rm)"
  by (induction xs arbitrary: rm) (auto split: sum.splits option.splits)

lemma Build_rejected:
  "fst (snd (Build wl raw)) =
     (let ps = sorted_list_of_fmap raw in
      if ps = [] \<or> (firstError ps = None \<and> removedUpTo wl ps fmempty = fmempty) then None
      else Some (removedUpTo wl ps fmempty))"
  by (simp add: Build_eq Let_def split: option.splits)

section \<open>The IN operator and the plain key\<close>

text \<open>
  Claim C7. Let \<open>c\<close> be a whitelisted column with rewrite function \<open>f\<close>, such that the
  separator does not occur in \<open>c\<close> followed by an underscore (so \<open>c\<close> neither contains the
  separator nor ends in an underscore). Then \<open>Build\<close> on the key \<open>c__in\<close> with the values
  \<open>[v]\<close> and \<open>Build\<close> on the plain key \<open>c\<close> with the values \<open>[v]\<close> return the same
  result: the fragment \<open>f c = ?\<close> (which is \<open>c = ?\<close> when \<open>f\<close> is the identity), the bind
  values \<open>[v]\<close>, nil rejected parameters and no error. (For a column that ends in an
  underscore the two differ, as the counterexample shows.)
\<close>

theorem in_same_as_plain:
  assumes "wl c = Some f" and "\<not> Contains (c @ ''_'') OPERATOR_SEPARATOR"
  shows "Build wl (fmupd (c @ OPERATOR_SEPARATOR @ OPERATOR_IN) [v] fmempty) =
           (\<lparr>SqlFilters = f c @ '' = ?'', PlaceholderValues = [v]\<rparr>, None, None)
       \<and> Build wl (fmupd c [v] fmempty) =
           (\<lparr>SqlFilters = f c @ '' = ?'', PlaceholderValues = [v]\<rparr>, None, None)"
proof -
  from assms(2) have nc: "\<not> Contains (c @ ''_'') ''__''" by (simp add: OPERATOR_SEPARATOR_def)
  then have plain: "\<not> Contains c OPERATOR_SEPARATOR"
    using no_sep_in_column by (simp add: OPERATOR_SEPARATOR_def)
  have "Split (c @ ''__'' @ ''in'') ''__'' = c # Split ''in'' ''__''"
    using nc by (rule Split_column_prefix)
  then have sp: "Split (c @ OPERATOR_SEPARATOR @ OPERATOR_IN) OPERATOR_SEPARATOR = [c, OPERATOR_IN]"
    by (simp add: OPERATOR_SEPARATOR_def OPERATOR_IN_def)
  have op: "OPERATORS OPERATOR_IN = Some QUERY_TOKEN_IN"
    by (simp add: OPERATORS_def OPERATOR_LIKE_def OPERATOR_IN_def OPERATOR_NOT_IN_def)
  have ne: "OPERATOR_IN \<noteq> []" "OPERATOR_IN \<noteq> OPERATOR_LIKE"
    by (simp_all add: OPERATOR_IN_def OPERATOR_LIKE_def)
  have a: "splitParamName (c @ OPERATOR_SEPARATOR @ OPERATOR_IN) [v]
             = Inr \<lparr>Name = c, QueryToken = QUERY_TOKEN_IN, Values = [v]\<rparr>"
    by (simp add: splitParamName_two [OF sp] op newFilterParam_def ne)
  have b: "splitParamName c [v] = Inr \<lparr>Name = c, QueryToken = QUERY_TOKEN_IN, Values = [v]\<rparr>"
    by (simp add: splitParamName_plain [OF plain] newFilterParam_def)
  have sql: "Sql \<lparr>Name = f c, QueryToken = QUERY_TOKEN_IN, Values = [v]\<rparr> = f c @ '' = ?''"
    by (simp add: Sql_def QUERY_TOKEN_EQUALS_def)
  show ?thesis by (simp add: Build_single a b assms(1) sql)
qed

theorem in_same_as_plain_witness:
  "Build [''col1'' \<mapsto> (\<lambda>s. ''table_name.col1'')] (fmupd ''col1__in'' [''1''] fmempty) =
     (\<lparr>SqlFilters = ''table_name.col1 = ?'', PlaceholderValues = [''1'']\<rparr>, None, None) \<and>
   Build [''col1'' \<mapsto> (\<lambda>s. ''table_name.col1'')] (fmupd ''col1'' [''1''] fmempty) =
     (\<lparr>SqlFilters = ''table_name.col1 = ?'', PlaceholderValues = [''1'']\<rparr>, None, None)"
proof -
  have h: "\<not> Contains (''col1'' @ ''_'') OPERATOR_SEPARATOR"
    by (simp add: OPERATOR_SEPARATOR_def)
  have w: "[''col1'' \<mapsto> (\<lambda>s. ''table_name.col1'')] ''col1'' = Some (\<lambda>s. ''table_name.col1'')"
    by simp
  from in_same_as_plain [of "[''col1'' \<mapsto> (\<lambda>s. ''table_name.col1'')]" "''col1''"
         "\<lambda>s. ''table_name.col1''" "''1''"] w h
  show ?thesis
    by (simp add: OPERATOR_SEPARATOR_def OPERATOR_IN_def)
qed

theorem in_same_as_plain_counterexample:
  "[''a_'' \<mapsto> (\<lambda>s. s)] ''a_'' = Some (\<lambda>s. s) \<and>
   Build [''a_'' \<mapsto> (\<lambda>s. s)] (fmupd (''a_'' @ ''__in'') [''1''] fmempty) =
     (Filter_zero, Some fmempty, Some (ErrWrongOperator ''_in'' ''a___in'')) \<and>
   Build [''a_'' \<mapsto> (\<lambda>s. s)] (fmupd ''a_'' [''1''] fmempty) =
     (\<lparr>SqlFilters = ''a_ = ?'', PlaceholderValues = [''1'']\<rparr>, None, None) \<and>
   fst (Build [''a_'' \<mapsto> (\<lambda>s. s)] (fmupd (''a_'' @ ''__in'') [''1''] fmempty))
     \<noteq> fst (Build [''a_'' \<mapsto> (\<lambda>s. s)] (fmupd ''a_'' [''1''] fmempty))"
proof -
  have a: "Build [''a_'' \<mapsto> (\<lambda>s. s)] (fmupd (''a_'' @ ''__in'') [''1''] fmempty) =
     (Filter_zero, Some fmempty, Some (ErrWrongOperator ''_in'' ''a___in''))"
    by code_simp
  have b: "Build [''a_'' \<mapsto> (\<lambda>s. s)] (fmupd ''a_'' [''1''] fmempty) =
     (\<lparr>SqlFilters = ''a_ = ?'', PlaceholderValues = [''1'']\<rparr>, None, None)"
    by code_simp
  show ?thesis unfolding a b by (simp add: Filter_zero_def)
qed

section \<open>Nil and empty rejected parameters\<close>

text \<open>
  Claim C10. When \<open>Build\<close> returns no error, the rejected parameters it returns are never
  an empty non-nil map, and they are nil when no parameter was rejected (every key parses
  to a whitelisted column). When the first key that fails to parse has only keys with
  whitelisted columns sorted before it, so that nothing was rejected before the scan
  stopped, \<open>Build\<close> returns the zero filter, a non-nil empty map of rejected parameters and
  the error of that key.
\<close>

theorem rejected_nil_or_empty:
  "(Build wl raw = (flt, rej, None) \<longrightarrow> rej \<noteq> Some fmempty) \<and>
   (Build wl raw = (flt, rej, None) \<and>
    (\<forall>k. k |\<in>| fmdom raw \<longrightarrow> finalParam wl k (the (fmlookup raw k)) \<noteq> None) \<longrightarrow>
      rej = None) \<and>
   (k |\<in>| fmdom raw \<and> splitParamName k (the (fmlookup raw k)) = Inl e \<and>
    (\<forall>k'. k' |\<in>| fmdom raw \<and> k' < k \<longrightarrow>
           finalParam wl k' (the (fmlookup raw k')) \<noteq> None) \<longrightarrow>
      Build wl raw = (Filter_zero, Some fmempty, Some e))"
proof (intro conjI impI)
  assume "Build wl raw = (flt, rej, None)"
  then have "fst (snd (Build wl raw)) = rej" and "snd (snd (Build wl raw)) = None" by simp_all
  then show "rej \<noteq> Some fmempty"
    by (auto simp: Build_rejected Build_error Let_def split: if_splits)
next
  assume a: "Build wl raw = (flt, rej, None) \<and>
    (\<forall>k. k |\<in>| fmdom raw \<longrightarrow> finalParam wl k (the (fmlookup raw k)) \<noteq> None)"
  then have r: "fst (snd (Build wl raw)) = rej" and e: "snd (snd (Build wl raw)) = None"
    by simp_all
  have "\<forall>p \<in> set (sorted_list_of_fmap raw). finalParam wl (fst p) (snd p) \<noteq> None"
  proof
    fix p assume "p \<in> set (sorted_list_of_fmap raw)"
    then have "fmlookup raw (fst p) = Some (snd p)" using sorted_fmap_mem [of "fst p" "snd p"] by simp
    with a show "finalParam wl (fst p) (snd p) \<noteq> None" by (metis fmdomI option.sel)
  qed
  then have "removedUpTo wl (sorted_list_of_fmap raw) fmempty = fmempty"
    by (rule removedUpTo_all_valid)
  with r e show "rej = None"
    by (auto simp: Build_rejected Build_error Let_def split: if_splits)
next
  assume a: "k |\<in>| fmdom raw \<and> splitParamName k (the (fmlookup raw k)) = Inl e \<and>
    (\<forall>k'. k' |\<in>| fmdom raw \<and> k' < k \<longrightarrow>
           finalParam wl k' (the (fmlookup raw k')) \<noteq> None)"
  then have k: "k |\<in>| fmdom raw" and bad: "splitParamName k (the (fmlookup raw k)) = Inl e"
    by simp_all
  from a have first: "\<forall>k'. k' |\<in>| fmdom raw \<and> k' < k \<longrightarrow>
             (\<exists>fp. splitParamName k' (the (fmlookup raw k')) = Inr fp)"
    using finalParam_parses by blast
  from first_failure [OF k first] obtain xs ys where
    ps: "sorted_list_of_fmap raw = xs @ (k, the (fmlookup raw k)) # ys" and
    ok: "firstError xs = None" and
    xs: "\<forall>p \<in> set xs. fst p < k \<and> fst p |\<in>| fmdom raw \<and> snd p = the (fmlookup raw (fst p))"
    by blast
  from xs a have "\<forall>p \<in> set xs. finalParam wl (fst p) (snd p) \<noteq> None" by auto
  then have "removedUpTo wl xs fmempty = fmempty" by (rule removedUpTo_all_valid)
  then have rm: "removedUpTo wl (sorted_list_of_fmap raw) fmempty = fmempty"
    by (simp add: ps removedUpTo_append ok bad)
  have fe: "firstError (sorted_list_of_fmap raw) = Some e"
    by (simp add: ps firstError_append ok bad)
  have ne: "sorted_list_of_fmap raw \<noteq> []" by (simp add: ps)
  have "fst (snd (Build wl raw)) = Some fmempty"
    by (simp add: Build_rejected Let_def rm fe ne)
  with Build_first_failure [OF k first bad, of wl]
  show "Build wl raw = (Filter_zero, Some fmempty, Some e)"
    by (cases "Build wl raw") auto
qed


theorem rejected_nil_or_empty_witness:
  "fst (snd (Build [''col1'' \<mapsto> (\<lambda>s. s), ''col2'' \<mapsto> (\<lambda>s. s)]
               (fmupd ''col1__like'' [''foo''] fmempty))) = None \<and>
   snd (snd (Build [''col1'' \<mapsto> (\<lambda>s. s), ''col2'' \<mapsto> (\<lambda>s. s)]
               (fmupd ''col1__like'' [''foo''] fmempty))) = None \<and>
   Build [''col1'' \<mapsto> (\<lambda>s. s), ''col2'' \<mapsto> (\<lambda>s. s)]
       (fmupd ''col1'' [''1''] (fmupd ''col2__like'' [''foo'', ''bar''] fmempty)) =
     (Filter_zero, Some fmempty, Some (Errorf ''like operator only supports single value''))"
proof -
  let ?wl = "[''col1'' \<mapsto> (\<lambda>s. s), ''col2'' \<mapsto> (\<lambda>s::string. s)]"
  let ?r1 = "fmupd ''col1__like'' [''foo''] fmempty"
  let ?r2 = "fmupd ''col1'' [''1''] (fmupd ''col2__like'' [''foo'', ''bar''] fmempty)"
  have e1: "snd (snd (Build ?wl ?r1)) = None" by code_simp
  then have b1: "Build ?wl ?r1 = (fst (Build ?wl ?r1), fst (snd (Build ?wl ?r1)), None)"
    by (simp add: prod_eq_iff)
  have f1: "finalParam ?wl ''col1__like'' [''foo''] \<noteq> None" by code_simp
  then have all1: "\<forall>k. k |\<in>| fmdom ?r1 \<longrightarrow> finalParam ?wl k (the (fmlookup ?r1 k)) \<noteq> None"
    by simp
  have bad: "splitParamName ''col2__like'' (the (fmlookup ?r2 ''col2__like''))
               = Inl (Errorf ''like operator only supports single value'')"
    by code_simp
  have f2: "finalParam ?wl ''col1'' [''1''] \<noteq> None" by code_simp
  then have all2: "\<forall>k'. k' |\<in>| fmdom ?r2 \<and> k' < ''col2__like'' \<longrightarrow>
                     finalParam ?wl k' (the (fmlookup ?r2 k')) \<noteq> None"
    by auto
  have k2: "''col2__like'' |\<in>| fmdom ?r2" by simp
  from rejected_nil_or_empty [of ?wl ?r1 "fst (Build ?wl ?r1)" "fst (snd (Build ?wl ?r1))"]
    b1 all1
  have "fst (snd (Build ?wl ?r1)) = None" by blast
  moreover
  from rejected_nil_or_empty [of ?wl ?r2 _ _ "''col2__like''"] k2 bad all2
  have "Build ?wl ?r2 =
     (Filter_zero, Some fmempty, Some (Errorf ''like operator only supports single value''))"
    by blast
  ultimately show ?thesis using e1 by simp
qed

section \<open>The valid parameters and the order of the fragment\<close>


lemma validUpTo_append:
  "validUpTo wl (xs @ ys) vp =
     (if firstError xs = None then validUpTo wl ys (validUpTo wl xs vp)
      else validUpTo wl xs vp)"
  by (induction xs arbitrary: vp) (auto split: sum.splits option.splits)

lemma validUpTo_fold:
  "firstError ps = None \<Longrightarrow>
   validUpTo wl ps vp =
     fold (\<lambda>p. omap_Set (Name p) p)
       (List.map_filter (\<lambda>p. finalParam wl (fst p) (snd p)) ps) vp"
  by (induction ps arbitrary: vp)
     (auto simp: finalParam_def split: sum.splits option.splits)

lemma valid_of_sorted_fmap:
  "List.map_filter (\<lambda>p. finalParam wl (fst p) (snd p)) (sorted_list_of_fmap raw)
     = validInKeyOrder wl raw"
  by (simp add: validInKeyOrder_def sorted_list_of_fmap_def List.map_filter_def
        filter_map comp_def)

lemma fold_omap_Set_distinct:
  "distinct (map key xs) \<Longrightarrow> key ` set xs \<inter> fst ` set m = {} \<Longrightarrow>
   fold (\<lambda>x. omap_Set (key x) x) xs m = m @ map (\<lambda>x. (key x, x)) xs"
proof (induction xs arbitrary: m)
  case Nil
  then show ?case by simp
next
  case (Cons x xs)
  have "key x \<notin> fst ` set m" using Cons.prems by auto
  then have s: "omap_Set (key x) x m = m @ [(key x, x)]" by (rule omap_Set_fresh)
  have "key ` set xs \<inter> fst ` set (m @ [(key x, x)]) = {}" using Cons.prems by auto
  with Cons.IH [of "m @ [(key x, x)]"] Cons.prems s show ?case by simp
qed

lemma Build_filter:
  "fst (Build wl raw) =
     (if firstError (sorted_list_of_fmap raw) = None
      then buildQueryFilters (validUpTo wl (sorted_list_of_fmap raw) [])
      else Filter_zero)"
  by (auto simp: Build_eq Let_def buildQueryFilters_Nil split: option.splits)

lemma Build_success_filter:
  assumes "Build wl raw = (flt, rej, None)"
  shows "flt = buildQueryFilters (fold (\<lambda>p. omap_Set (Name p) p) (validInKeyOrder wl raw) [])"
proof -
  from assms have e: "snd (snd (Build wl raw)) = None" and f: "fst (Build wl raw) = flt"
    by simp_all
  from e have ok: "firstError (sorted_list_of_fmap raw) = None"
    by (simp add: Build_error split: if_splits)
  from f ok show ?thesis
    by (simp add: Build_filter validUpTo_fold valid_of_sorted_fmap)
qed

text \<open>
  Claim C1. When \<open>Build\<close> returns no error and no two valid parameters have the same
  final column name, the fragment is the SQL of the valid parameters joined with \<open>AND\<close>
  in ascending lexicographic order of their raw keys (and the bind values are their values
  in the same order). The final column names need not ascend: a rewrite function can map
  the column of a smaller key to a larger name, as the counterexample shows.
\<close>

theorem fragment_in_raw_key_order:
  assumes "Build wl raw = (flt, rej, None)"
      and "distinct (map Name (validInKeyOrder wl raw))"
  shows "SqlFilters flt = Join (map Sql (validInKeyOrder wl raw)) '' AND '' \<and>
         PlaceholderValues flt = concat (map Values (validInKeyOrder wl raw))"
proof -
  have "fold (\<lambda>p. omap_Set (Name p) p) (validInKeyOrder wl raw) []
          = map (\<lambda>p. (Name p, p)) (validInKeyOrder wl raw)"
    using fold_omap_Set_distinct [OF assms(2), of "[]"] by simp
  with Build_success_filter [OF assms(1)] show ?thesis
    by (simp add: buildQueryFilters_eq comp_def)
qed

theorem fragment_in_raw_key_order_witness:
  "Build [''col1'' \<mapsto> (\<lambda>s. ''table_name.col1''), ''col2'' \<mapsto> (\<lambda>s. s)]
     (fmupd ''col1__in'' [''1'', ''2'']
       (fmupd ''col2__not_in'' [''1''] (fmupd ''col3'' [''val''] fmempty)))
   = (\<lparr>SqlFilters = ''table_name.col1 IN (?,?) AND col2 <> ?'',
       PlaceholderValues = [''1'', ''2'', ''1'']\<rparr>,
      Some (fmupd ''col3'' [''val''] fmempty), None)"
proof -
  let ?wl = "[''col1'' \<mapsto> (\<lambda>s. ''table_name.col1''), ''col2'' \<mapsto> (\<lambda>s::string. s)]"
  let ?raw = "fmupd ''col1__in'' [''1'', ''2'']
       (fmupd ''col2__not_in'' [''1''] (fmupd ''col3'' [''val''] fmempty))"
  have v: "validInKeyOrder ?wl ?raw =
        [\<lparr>Name = ''table_name.col1'', QueryToken = ''IN'', Values = [''1'', ''2'']\<rparr>,
         \<lparr>Name = ''col2'', QueryToken = ''NOT IN'', Values = [''1'']\<rparr>]"
    by code_simp
  have r: "fst (snd (Build ?wl ?raw)) = Some (fmupd ''col3'' [''val''] fmempty)"
    by code_simp
  have e: "snd (snd (Build ?wl ?raw)) = None" by code_simp
  from r e have b: "Build ?wl ?raw
      = (fst (Build ?wl ?raw), Some (fmupd ''col3'' [''val''] fmempty), None)"
    by (simp add: prod_eq_iff)
  have d: "distinct (map Name (validInKeyOrder ?wl ?raw))" unfolding v by simp
  have s1: "Sql \<lparr>Name = ''table_name.col1'', QueryToken = ''IN'', Values = [''1'', ''2'']\<rparr>
              = ''table_name.col1 IN (?,?)''" by code_simp
  have s2: "Sql \<lparr>Name = ''col2'', QueryToken = ''NOT IN'', Values = [''1'']\<rparr> = ''col2 <> ?''"
    by code_simp
  from fragment_in_raw_key_order [OF b d]
  have "fst (Build ?wl ?raw) = \<lparr>SqlFilters = ''table_name.col1 IN (?,?) AND col2 <> ?'',
       PlaceholderValues = [''1'', ''2'', ''1'']\<rparr>"
    unfolding v by (simp add: s1 s2)
  with b show ?thesis by simp
qed

theorem fragment_in_raw_key_order_counterexample:
  "Build [''col1'' \<mapsto> (\<lambda>s. ''table_name.col1''), ''col2'' \<mapsto> (\<lambda>s. s)]
     (fmupd ''col1__in'' [''1'', ''2'']
       (fmupd ''col2__not_in'' [''1''] (fmupd ''col3'' [''val''] fmempty)))
   = (\<lparr>SqlFilters = ''table_name.col1 IN (?,?) AND col2 <> ?'',
       PlaceholderValues = [''1'', ''2'', ''1'']\<rparr>,
      Some (fmupd ''col3'' [''val''] fmempty), None) \<and>
   map fst (fst (getValidQueryParams
       [''col1'' \<mapsto> (\<lambda>s. ''table_name.col1''), ''col2'' \<mapsto> (\<lambda>s. s)]
       (getOrderedGetParams (fmupd ''col1__in'' [''1'', ''2'']
         (fmupd ''col2__not_in'' [''1''] (fmupd ''col3'' [''val''] fmempty))))))
     = [''table_name.col1'', ''col2''] \<and>
   \<not> sorted [''table_name.col1'', ''col2'']"
  by code_simp

section \<open>Parameters outside the whitelist\<close>


lemma sorted_fmap_drop:
  assumes "k |\<in>| fmdom raw"
  shows "\<exists>xs ys. sorted_list_of_fmap raw = xs @ (k, the (fmlookup raw k)) # ys \<and>
           sorted_list_of_fmap (fmdrop k raw) = xs @ ys"
proof -
  let ?ks = "sorted_list_of_fset (fmdom raw)"
  from assms have "k \<in> set ?ks" by simp
  then obtain as bs where ks: "?ks = as @ k # bs" by (meson split_list)
  have s: "sorted (as @ k # bs)" and d: "distinct (as @ k # bs)"
    using keys_sorted [of "fmdom raw"] keys_distinct [of "fmdom raw"] ks by simp_all
  have st: "set (as @ k # bs) = fset (fmdom raw)"
    using sorted_list_of_fset_simps(1) [of "fmdom raw"] ks by simp
  have "sorted (as @ bs)" using s by (auto simp: sorted_append)
  moreover have "distinct (as @ bs)" using d by auto
  moreover have "set (as @ bs) = fset (fmdom (fmdrop k raw))" using st d by auto
  ultimately have ks': "sorted_list_of_fset (fmdom (fmdrop k raw)) = as @ bs"
    using keys_sorted [of "fmdom (fmdrop k raw)"] keys_distinct [of "fmdom (fmdrop k raw)"]
      sorted_list_of_fset_simps(1) [of "fmdom (fmdrop k raw)"]
    by (metis sorted_distinct_set_unique)
  let ?f = "\<lambda>k. (k, the (fmlookup raw k))"
  have nk: "\<forall>x \<in> set (as @ bs). x \<noteq> k" using d by auto
  have "sorted_list_of_fmap raw = map ?f as @ ?f k # map ?f bs"
    by (simp add: sorted_list_of_fmap_def ks)
  moreover have "sorted_list_of_fmap (fmdrop k raw) = map ?f as @ map ?f bs"
  proof -
    have "sorted_list_of_fmap (fmdrop k raw)
            = map (\<lambda>x. (x, the (fmlookup (fmdrop k raw) x))) (as @ bs)"
      unfolding sorted_list_of_fmap_def ks' ..
    also have "\<dots> = map ?f (as @ bs)" using nk by (intro map_cong) simp_all
    finally show ?thesis by simp
  qed
  ultimately show ?thesis by blast
qed

lemma removedUpTo_lookup_other:
  "k \<notin> fst ` set ys \<Longrightarrow> fmlookup (removedUpTo wl ys rm) k = fmlookup rm k"
  by (induction ys arbitrary: rm) (auto split: sum.splits option.splits)

lemma removedUpTo_sound:
  "fmlookup (removedUpTo wl ps rm) k = Some v \<Longrightarrow>
   fmlookup rm k = Some v \<or>
   ((k, v) \<in> set ps \<and> (\<exists>fp. splitParamName k v = Inr fp \<and> wl (Name fp) = None))"
proof (induction ps arbitrary: rm)
  case Nil
  then show ?case by simp
next
  case (Cons p ps)
  obtain k' v' where p: "p = (k', v')" by (cases p)
  show ?case
  proof (cases "splitParamName k' v'")
    case (Inl e)
    with Cons.prems p show ?thesis by simp
  next
    case (Inr fp)
    show ?thesis
    proof (cases "wl (Name fp)")
      case None
      with Cons.prems p Inr have "fmlookup (removedUpTo wl ps (fmupd k' v' rm)) k = Some v"
        by simp
      from Cons.IH [OF this] p Inr None show ?thesis by (auto split: if_splits)
    next
      case (Some f)
      with Cons.prems p Inr have "fmlookup (removedUpTo wl ps rm) k = Some v" by simp
      from Cons.IH [OF this] show ?thesis by auto
    qed
  qed
qed

lemma Build_rejected_sound:
  assumes "fst (snd (Build wl raw)) = Some rm" and "fmlookup rm k = Some v"
  shows "fmlookup raw k = Some v \<and> (\<exists>fp. splitParamName k v = Inr fp \<and> wl (Name fp) = None)"
proof -
  from assms(1) have "rm = removedUpTo wl (sorted_list_of_fmap raw) fmempty"
    by (simp add: Build_rejected Let_def split: if_splits)
  with assms(2) removedUpTo_sound [of wl "sorted_list_of_fmap raw" fmempty k v]
  have "(k, v) \<in> set (sorted_list_of_fmap raw) \<and>
        (\<exists>fp. splitParamName k v = Inr fp \<and> wl (Name fp) = None)" by simp
  then show ?thesis by (auto dest: sorted_fmap_mem)
qed

lemma Build_rejected_recorded:
  assumes "k |\<in>| fmdom raw"
      and "splitParamName k (the (fmlookup raw k)) = Inr fp" and "wl (Name fp) = None"
      and "\<forall>k'. k' |\<in>| fmdom raw \<and> k' < k \<longrightarrow>
             (\<exists>fp'. splitParamName k' (the (fmlookup raw k')) = Inr fp')"
  shows "\<exists>rm. fst (snd (Build wl raw)) = Some rm \<and> fmlookup rm k = fmlookup raw k"
proof -
  let ?v = "the (fmlookup raw k)"
  from first_failure [OF assms(1,4)] obtain xs ys where
    ps: "sorted_list_of_fmap raw = xs @ (k, ?v) # ys" and
    ok: "firstError xs = None" and
    ys: "\<forall>p \<in> set ys. k < fst p \<and> fst p |\<in>| fmdom raw \<and> snd p = the (fmlookup raw (fst p))"
    by blast
  from ys have "k \<notin> fst ` set ys" by auto
  then have "fmlookup (removedUpTo wl (sorted_list_of_fmap raw) fmempty) k = Some ?v"
    by (simp add: ps removedUpTo_append ok assms(2,3) removedUpTo_lookup_other)
  moreover from this have "removedUpTo wl (sorted_list_of_fmap raw) fmempty \<noteq> fmempty" by auto
  moreover have "sorted_list_of_fmap raw \<noteq> []" by (simp add: ps)
  moreover from assms(1) have "fmlookup raw k = Some ?v" by (auto simp: fmlookup_dom_iff)
  ultimately show ?thesis by (simp add: Build_rejected Let_def)
qed

lemma Build_filter_drop:
  assumes "k |\<in>| fmdom raw"
      and "splitParamName k (the (fmlookup raw k)) = Inr fp" and "wl (Name fp) = None"
  shows "fst (Build wl (fmdrop k raw)) = fst (Build wl raw)"
proof -
  from sorted_fmap_drop [OF assms(1)] obtain xs ys where
    ps: "sorted_list_of_fmap raw = xs @ (k, the (fmlookup raw k)) # ys" and
    ps': "sorted_list_of_fmap (fmdrop k raw) = xs @ ys" by blast
  have "firstError (sorted_list_of_fmap (fmdrop k raw)) = firstError (sorted_list_of_fmap raw)"
    by (simp add: ps ps' firstError_append assms(2) split: option.splits)
  moreover have "validUpTo wl (sorted_list_of_fmap (fmdrop k raw)) []
                   = validUpTo wl (sorted_list_of_fmap raw) []"
    by (simp add: ps ps' validUpTo_append assms(2,3))
  ultimately show ?thesis by (simp add: Build_filter)
qed

text \<open>
  Claim C4. Let a raw parameter parse to a column that is not a key of the whitelist.
  When no key sorted before it fails to parse (in particular whenever \<open>Build\<close> returns
  no error), the rejected parameters that \<open>Build\<close> returns hold its key with its values,
  also when a later key makes \<open>Build\<close> return an error. The parameter contributes nothing
  to the filter: the request without it gives the same fragment and bind values. The error
  that \<open>Build\<close> returns does not depend on the whitelist. Every entry of the returned
  rejected parameters is a raw parameter, with its values, that parses to a column outside
  the whitelist: a parameter with a whitelisted column never appears there. (When an
  earlier key fails to parse, the scan stops before the parameter is recorded, as the
  counterexample shows.)
\<close>

theorem unwhitelisted_is_rejected:
  assumes "k |\<in>| fmdom raw"
      and "splitParamName k (the (fmlookup raw k)) = Inr fp"
      and "wl (Name fp) = None"
  shows "((\<forall>k'. k' |\<in>| fmdom raw \<and> k' < k \<longrightarrow>
             (\<exists>fp'. splitParamName k' (the (fmlookup raw k')) = Inr fp')) \<longrightarrow>
          (\<exists>rm. fst (snd (Build wl raw)) = Some rm \<and> fmlookup rm k = fmlookup raw k))
       \<and> fst (Build wl (fmdrop k raw)) = fst (Build wl raw)
       \<and> (\<forall>wl'. snd (snd (Build wl' raw)) = snd (snd (Build wl raw)))
       \<and> (\<forall>rm k' v'. fst (snd (Build wl raw)) = Some rm \<and> fmlookup rm k' = Some v' \<longrightarrow>
            fmlookup raw k' = Some v' \<and>
            (\<exists>fp'. splitParamName k' v' = Inr fp' \<and> wl (Name fp') = None))"
proof (intro conjI impI allI)
  assume "\<forall>k'. k' |\<in>| fmdom raw \<and> k' < k \<longrightarrow>
             (\<exists>fp'. splitParamName k' (the (fmlookup raw k')) = Inr fp')"
  with assms show "\<exists>rm. fst (snd (Build wl raw)) = Some rm \<and> fmlookup rm k = fmlookup raw k"
    by (rule Build_rejected_recorded)
next
  from assms show "fst (Build wl (fmdrop k raw)) = fst (Build wl raw)"
    by (rule Build_filter_drop)
next
  fix wl' show "snd (snd (Build wl' raw)) = snd (snd (Build wl raw))"
    by (simp add: Build_error)
next
  fix rm k' v'
  assume "fst (snd (Build wl raw)) = Some rm \<and> fmlookup rm k' = Some v'"
  then show "fmlookup raw k' = Some v'"
    and "\<exists>fp'. splitParamName k' v' = Inr fp' \<and> wl (Name fp') = None"
    using Build_rejected_sound [of wl raw rm k' v'] by simp_all
qed

theorem unwhitelisted_is_rejected_witness:
  "(\<exists>rm. fst (snd (Build [''col1'' \<mapsto> (\<lambda>s. s), ''col2'' \<mapsto> (\<lambda>s. s)]
                      (fmupd ''col1'' [''1'', ''2'', ''3'']
                        (fmupd ''col2'' [''1''] (fmupd ''col3'' [''val''] fmempty))))) = Some rm \<and>
         fmlookup rm ''col3'' = Some [''val'']) \<and>
   fst (Build [''col1'' \<mapsto> (\<lambda>s. s), ''col2'' \<mapsto> (\<lambda>s. s)]
          (fmdrop ''col3'' (fmupd ''col1'' [''1'', ''2'', ''3'']
             (fmupd ''col2'' [''1''] (fmupd ''col3'' [''val''] fmempty)))))
     = fst (Build [''col1'' \<mapsto> (\<lambda>s. s), ''col2'' \<mapsto> (\<lambda>s. s)]
          (fmupd ''col1'' [''1'', ''2'', ''3'']
             (fmupd ''col2'' [''1''] (fmupd ''col3'' [''val''] fmempty))))"
proof -
  let ?wl = "[''col1'' \<mapsto> (\<lambda>s. s), ''col2'' \<mapsto> (\<lambda>s::string. s)]"
  let ?raw = "fmupd ''col1'' [''1'', ''2'', ''3'']
                (fmupd ''col2'' [''1''] (fmupd ''col3'' [''val''] fmempty))"
  have k: "''col3'' |\<in>| fmdom ?raw" by simp
  have p: "splitParamName ''col3'' (the (fmlookup ?raw ''col3''))
             = Inr \<lparr>Name = ''col3'', QueryToken = ''IN'', Values = [''val'']\<rparr>"
    by code_simp
  have w: "?wl (Name \<lparr>Name = ''col3'', QueryToken = ''IN'', Values = [''val'']\<rparr>) = None"
    by simp
  have p1: "\<exists>fp'. splitParamName ''col1'' [''1'', ''2'', ''3''] = Inr fp'"
    by (rule exI [of _ "\<lparr>Name = ''col1'', QueryToken = ''IN'', Values = [''1'', ''2'', ''3'']\<rparr>"])
       code_simp
  have p2: "\<exists>fp'. splitParamName ''col2'' [''1''] = Inr fp'"
    by (rule exI [of _ "\<lparr>Name = ''col2'', QueryToken = ''IN'', Values = [''1'']\<rparr>"]) code_simp
  have first: "\<forall>k'. k' |\<in>| fmdom ?raw \<and> k' < ''col3'' \<longrightarrow>
             (\<exists>fp'. splitParamName k' (the (fmlookup ?raw k')) = Inr fp')"
    using p1 p2 by auto
  from unwhitelisted_is_rejected [of "''col3''" ?raw
         "\<lparr>Name = ''col3'', QueryToken = ''IN'', Values = [''val'']\<rparr>" ?wl] k p w first
  show ?thesis by simp
qed

theorem unwhitelisted_is_rejected_counterexample:
  "''zzz'' |\<in>| fmdom (fmupd ''a__b__c'' [''x''] (fmupd ''zzz'' [''y''] fmempty)) \<and>
   splitParamName ''zzz'' [''y''] = Inr \<lparr>Name = ''zzz'', QueryToken = ''IN'', Values = [''y'']\<rparr> \<and>
   [''col1'' \<mapsto> (\<lambda>s. s)] ''zzz'' = None \<and>
   Build [''col1'' \<mapsto> (\<lambda>s. s)] (fmupd ''a__b__c'' [''x''] (fmupd ''zzz'' [''y''] fmempty))
     = (Filter_zero, Some fmempty, Some (ErrWrongQueryParamName ''a__b__c''))"
proof -
  have "splitParamName ''zzz'' [''y''] = Inr \<lparr>Name = ''zzz'', QueryToken = ''IN'', Values = [''y'']\<rparr>"
    by code_simp
  moreover have "Build [''col1'' \<mapsto> (\<lambda>s. s)] (fmupd ''a__b__c'' [''x''] (fmupd ''zzz'' [''y''] fmempty))
     = (Filter_zero, Some fmempty, Some (ErrWrongQueryParamName ''a__b__c''))"
    by code_simp
  ultimately show ?thesis by simp
qed

section \<open>Placeholders and bind values\<close>


lemma newFilterParam_ok:
  assumes "newFilterParam n op vs = Inr fp"
  shows "Name fp = n \<and> Values fp = vs \<and> vs \<noteq> [] \<and>
         QueryToken fp \<in> {QUERY_TOKEN_IN, QUERY_TOKEN_NOT_IN, QUERY_TOKEN_LIKE} \<and>
         (QueryToken fp = QUERY_TOKEN_LIKE \<longrightarrow> length vs = 1)"
proof -
  have ne: "vs \<noteq> []" using assms by (auto simp: newFilterParam_def)
  have tok: "QUERY_TOKEN_IN \<noteq> QUERY_TOKEN_LIKE" "QUERY_TOKEN_NOT_IN \<noteq> QUERY_TOKEN_LIKE"
    by (simp_all add: QUERY_TOKEN_IN_def QUERY_TOKEN_NOT_IN_def QUERY_TOKEN_LIKE_def)
  show ?thesis
  proof (cases "op = []")
    case True
    with assms ne tok show ?thesis by (auto simp: newFilterParam_def)
  next
    case False
    with assms ne have l: "\<not> (op = OPERATOR_LIKE \<and> 1 < length vs)"
      by (auto simp: newFilterParam_def)
    with assms ne False obtain t where t: "OPERATORS op = Some t"
      and fp: "fp = \<lparr>Name = n, QueryToken = t, Values = vs\<rparr>"
      by (auto simp: newFilterParam_def split: option.splits)
    from t have "(op = OPERATOR_IN \<and> t = QUERY_TOKEN_IN) \<or>
                 (op = OPERATOR_NOT_IN \<and> t = QUERY_TOKEN_NOT_IN) \<or>
                 (op = OPERATOR_LIKE \<and> t = QUERY_TOKEN_LIKE)"
      by (auto simp: OPERATORS_def split: if_splits)
    with l ne fp tok show ?thesis
      by (cases vs) (auto simp: Suc_lessI)
  qed
qed

lemma splitParamName_ok:
  assumes "splitParamName k vs = Inr fp"
  shows "Values fp = vs \<and> vs \<noteq> [] \<and>
         QueryToken fp \<in> {QUERY_TOKEN_IN, QUERY_TOKEN_NOT_IN, QUERY_TOKEN_LIKE} \<and>
         (QueryToken fp = QUERY_TOKEN_LIKE \<longrightarrow> length vs = 1)"
proof -
  from assms obtain n op where "newFilterParam n op vs = Inr fp"
    by (auto simp: splitParamName_def Let_def split: if_splits)
  from newFilterParam_ok [OF this] show ?thesis by simp
qed

lemma count_Join_placeholders:
  "count_list (Join (replicate (Suc n) ''?'') '','') CHR ''?'' = Suc n"
  by (induction n) simp_all

lemma count_Sql:
  assumes "vs \<noteq> []"
      and "tok \<in> {QUERY_TOKEN_IN, QUERY_TOKEN_NOT_IN, QUERY_TOKEN_LIKE}"
      and "tok = QUERY_TOKEN_LIKE \<longrightarrow> length vs = 1"
  shows "count_list (Sql \<lparr>Name = n, QueryToken = tok, Values = vs\<rparr>) CHR ''?''
           = count_list n CHR ''?'' + length vs"
proof -
  from assms(1) obtain m where m: "length vs = Suc m" by (cases vs) auto
  have cj: "count_list (Join (replicate (length vs) ''?'') '','') CHR ''?'' = length vs"
    unfolding m by (rule count_Join_placeholders)
  have up: "tok \<noteq> QUERY_TOKEN_LIKE \<Longrightarrow> ToUpper tok = tok"
    using assms(2) ToUpper_tokens by auto
  have ct: "tok \<noteq> QUERY_TOKEN_LIKE \<Longrightarrow> count_list tok CHR ''?'' = 0"
    using assms(2) by (auto simp: QUERY_TOKEN_IN_def QUERY_TOKEN_NOT_IN_def)
  show ?thesis
  proof (cases "tok = QUERY_TOKEN_LIKE")
    case True
    with assms(3) show ?thesis
      by (simp add: Sql_def QUERY_TOKEN_LIKE_def QUERY_TOKEN_IN_def QUERY_TOKEN_NOT_IN_def)
  next
    case False
    show ?thesis
    proof (cases "length vs = 1")
      case True
      with False assms(2) show ?thesis
        by (auto simp: Sql_def QUERY_TOKEN_EQUALS_def QUERY_TOKEN_NOT_EQUALS_def
              QUERY_TOKEN_IN_def QUERY_TOKEN_NOT_IN_def)
    next
      case l: False
      with False show ?thesis
        by (simp add: Sql_def buildPhrase_eq [OF assms(1)] up ct cj)
    qed
  qed
qed

lemma finalParam_count:
  assumes "finalParam wl k vs = Some p"
      and "\<forall>c f. wl c = Some f \<longrightarrow> CHR ''?'' \<notin> set (f c)"
  shows "count_list (Sql p) CHR ''?'' = length (Values p) \<and> Values p = vs"
proof -
  from assms(1) obtain fp f where sp: "splitParamName k vs = Inr fp"
    and w: "wl (Name fp) = Some f" and p: "p = fp\<lparr>Name := f (Name fp)\<rparr>"
    by (auto simp: finalParam_def split: sum.splits option.splits)
  from assms(2) w have "count_list (f (Name fp)) CHR ''?'' = 0"
    by (simp add: count_list_0_iff)
  moreover have "p = \<lparr>Name = f (Name fp), QueryToken = QueryToken fp, Values = Values fp\<rparr>"
    using p by (cases fp) simp
  ultimately show ?thesis
    using splitParamName_ok [OF sp]
      count_Sql [of "Values fp" "QueryToken fp" "f (Name fp)"]
    by simp
qed

lemma count_Join_AND:
  "\<forall>p \<in> set ps. count_list (Sql p) CHR ''?'' = length (Values p) \<Longrightarrow>
   count_list (Join (map Sql ps) '' AND '') CHR ''?'' = length (concat (map Values ps))"
proof (induction ps)
  case Nil
  then show ?case by simp
next
  case (Cons p ps)
  show ?case
  proof (cases ps)
    case Nil
    with Cons.prems show ?thesis by simp
  next
    case (Cons q qs)
    then have "map Sql ps \<noteq> []" by simp
    then have "Join (map Sql (p # ps)) '' AND '' = Sql p @ '' AND '' @ Join (map Sql ps) '' AND ''"
      by (simp add: Join_Cons)
    with Cons.IH Cons.prems show ?thesis by simp
  qed
qed

lemma omap_Set_values: "snd ` set (omap_Set k v m) \<subseteq> insert v (snd ` set m)"
proof (induction m)
  case Nil
  then show ?case by simp
next
  case (Cons a m)
  obtain k' v' where a: "a = (k', v')" by (cases a)
  show ?case
  proof (cases "k' = k")
    case True
    with a show ?thesis by auto
  next
    case False
    with a have "snd ` set (omap_Set k v (a # m)) = insert v' (snd ` set (omap_Set k v m))"
      by simp
    with a Cons.IH show ?thesis by auto
  qed
qed

lemma fold_omap_Set_values:
  "snd ` set (fold (\<lambda>p. omap_Set (key p) p) ps m) \<subseteq> set ps \<union> snd ` set m"
proof (induction ps arbitrary: m)
  case Nil
  then show ?case by simp
next
  case (Cons p ps)
  have "snd ` set (fold (\<lambda>p. omap_Set (key p) p) (p # ps) m)
          \<subseteq> set ps \<union> snd ` set (omap_Set (key p) p m)"
    using Cons.IH [of "omap_Set (key p) p m"] by simp
  also have "\<dots> \<subseteq> set ps \<union> insert p (snd ` set m)"
    using omap_Set_values [of "key p" p m] by blast
  finally show ?case by auto
qed

lemma valid_in_keys:
  "p \<in> set (validInKeyOrder wl raw) \<Longrightarrow>
   \<exists>k. k |\<in>| fmdom raw \<and> finalParam wl k (the (fmlookup raw k)) = Some p"
  by (auto simp: validInKeyOrder_def List.map_filter_def)

text \<open>
  Claim C2. Let no final column name of the whitelist contain the character \<open>?\<close>. When
  \<open>Build\<close> returns no error, the number of \<open>?\<close> in the fragment equals the number of bind
  values; and the SQL of every parameter that enters the valid parameters holds exactly as
  many \<open>?\<close> as the parameter has values. (A \<open>?\<close> in a column name is copied into the
  fragment and counted with the placeholders, as the counterexample shows.)
\<close>

theorem placeholders_match_values:
  assumes "\<forall>c f. wl c = Some f \<longrightarrow> CHR ''?'' \<notin> set (f c)"
  shows "(Build wl raw = (flt, rej, None) \<longrightarrow>
            count_list (SqlFilters flt) CHR ''?'' = length (PlaceholderValues flt))
       \<and> (\<forall>k vs p. finalParam wl k vs = Some p \<longrightarrow>
            count_list (Sql p) CHR ''?'' = length (Values p))"
proof (intro conjI impI allI)
  fix k vs p assume "finalParam wl k vs = Some p"
  from finalParam_count [OF this assms]
  show "count_list (Sql p) CHR ''?'' = length (Values p)" by simp
next
  assume b: "Build wl raw = (flt, rej, None)"
  let ?vp = "fold (\<lambda>p. omap_Set (Name p) p) (validInKeyOrder wl raw) []"
  have "\<forall>p \<in> set (map snd ?vp). count_list (Sql p) CHR ''?'' = length (Values p)"
  proof
    fix p assume "p \<in> set (map snd ?vp)"
    then have "p \<in> set (validInKeyOrder wl raw)"
      using fold_omap_Set_values [of Name "validInKeyOrder wl raw" "[]"] by auto
    then obtain k where "finalParam wl k (the (fmlookup raw k)) = Some p"
      using valid_in_keys by blast
    from finalParam_count [OF this assms]
    show "count_list (Sql p) CHR ''?'' = length (Values p)" by simp
  qed
  from count_Join_AND [OF this] Build_success_filter [OF b]
  show "count_list (SqlFilters flt) CHR ''?'' = length (PlaceholderValues flt)"
    by (simp add: buildQueryFilters_eq comp_def)
qed

theorem placeholders_match_values_witness:
  "count_list (SqlFilters (fst (Build [''col1'' \<mapsto> (\<lambda>s. s), ''col2'' \<mapsto> (\<lambda>s. s)]
      (fmupd ''col1__not_in'' [''1'', ''2'', ''3'']
        (fmupd ''col2__like'' [''foo''] (fmupd ''col3'' [''val''] fmempty)))))) CHR ''?''
   = length (PlaceholderValues (fst (Build [''col1'' \<mapsto> (\<lambda>s. s), ''col2'' \<mapsto> (\<lambda>s. s)]
      (fmupd ''col1__not_in'' [''1'', ''2'', ''3'']
        (fmupd ''col2__like'' [''foo''] (fmupd ''col3'' [''val''] fmempty)))))) \<and>
   snd (snd (Build [''col1'' \<mapsto> (\<lambda>s. s), ''col2'' \<mapsto> (\<lambda>s. s)]
      (fmupd ''col1__not_in'' [''1'', ''2'', ''3'']
        (fmupd ''col2__like'' [''foo''] (fmupd ''col3'' [''val''] fmempty))))) = None \<and>
   PlaceholderValues (fst (Build [''col1'' \<mapsto> (\<lambda>s. s), ''col2'' \<mapsto> (\<lambda>s. s)]
      (fmupd ''col1__not_in'' [''1'', ''2'', ''3'']
        (fmupd ''col2__like'' [''foo''] (fmupd ''col3'' [''val''] fmempty)))))
     = [''1'', ''2'', ''3'', ''foo'']"
proof -
  let ?wl = "[''col1'' \<mapsto> (\<lambda>s. s), ''col2'' \<mapsto> (\<lambda>s::string. s)]"
  let ?raw = "fmupd ''col1__not_in'' [''1'', ''2'', ''3'']
        (fmupd ''col2__like'' [''foo''] (fmupd ''col3'' [''val''] fmempty))"
  have clean: "\<forall>c f. ?wl c = Some f \<longrightarrow> CHR ''?'' \<notin> set (f c)"
  proof (intro allI impI)
    fix c :: string and f :: "string \<Rightarrow> string"
    assume a: "?wl c = Some f"
    then have "c = ''col1'' \<or> c = ''col2''" by (simp split: if_splits)
    moreover from a have "f c = c" by (auto split: if_splits)
    ultimately show "CHR ''?'' \<notin> set (f c)" by auto
  qed
  have e: "snd (snd (Build ?wl ?raw)) = None" by code_simp
  then have b: "Build ?wl ?raw = (fst (Build ?wl ?raw), fst (snd (Build ?wl ?raw)), None)"
    by (simp add: prod_eq_iff)
  have v: "PlaceholderValues (fst (Build ?wl ?raw)) = [''1'', ''2'', ''3'', ''foo'']"
    by code_simp
  from placeholders_match_values [OF clean, of ?raw "fst (Build ?wl ?raw)"
         "fst (snd (Build ?wl ?raw))"] b
  have "count_list (SqlFilters (fst (Build ?wl ?raw))) CHR ''?''
          = length (PlaceholderValues (fst (Build ?wl ?raw)))" by blast
  with e v show ?thesis by simp
qed

theorem placeholders_match_values_counterexample:
  "Build [''col'' \<mapsto> (\<lambda>s. ''what?'')] (fmupd ''col'' [''1''] fmempty)
     = (\<lparr>SqlFilters = ''what? = ?'', PlaceholderValues = [''1'']\<rparr>, None, None) \<and>
   count_list ''what? = ?'' CHR ''?'' = 2 \<and>
   length [''1''] = 1"
proof -
  have "Build [''col'' \<mapsto> (\<lambda>s. ''what?'')] (fmupd ''col'' [''1''] fmempty)
     = (\<lparr>SqlFilters = ''what? = ?'', PlaceholderValues = [''1'']\<rparr>, None, None)"
    by code_simp
  then show ?thesis by simp
qed

section \<open>Parameters with the same final column name\<close>



lemma map_of_omap_Set_at:
  "map_of (omap_Set k v m) x = (if x = k then Some v else map_of m x)"
  by (induction m) auto

lemma keys_omap_Set:
  "map fst (omap_Set k v m) = (if k \<in> set (map fst m) then map fst m else map fst m @ [k])"
proof (induction m)
  case Nil
  then show ?case by simp
next
  case (Cons a m)
  obtain k' v' where a: "a = (k', v')" by (cases a)
  show ?case
  proof (cases "k' = k")
    case True
    with a show ?thesis by simp
  next
    case False
    then have "k \<noteq> k'" by simp
    with a Cons.IH False show ?thesis by simp
  qed
qed

lemma distinct_omap_Set: "distinct (map fst m) \<Longrightarrow> distinct (map fst (omap_Set k v m))"
  unfolding keys_omap_Set by simp

lemma fold_omap_Set_distinct_keys:
  "distinct (map fst m) \<Longrightarrow> distinct (map fst (fold (\<lambda>p. omap_Set (key p) p) ps m))"
  by (induction ps arbitrary: m) (simp_all add: distinct_omap_Set)

lemma map_of_fold_untouched:
  "\<forall>p \<in> set ps. key p \<noteq> n \<Longrightarrow>
   map_of (fold (\<lambda>p. omap_Set (key p) p) ps m) n = map_of m n"
proof (induction ps arbitrary: m)
  case Nil
  then show ?case by simp
next
  case (Cons p ps)
  then have "key p \<noteq> n" and "\<forall>p \<in> set ps. key p \<noteq> n" by simp_all
  then have "map_of (fold (\<lambda>p. omap_Set (key p) p) ps (omap_Set (key p) p m)) n
               = map_of (omap_Set (key p) p m) n" using Cons.IH by blast
  also have "\<dots> = map_of m n" using \<open>key p \<noteq> n\<close> by (simp add: map_of_omap_Set_at)
  finally show ?case by simp
qed

lemma map_of_fold_last:
  assumes "\<forall>p \<in> set qs. key p \<noteq> key q"
  shows "map_of (fold (\<lambda>p. omap_Set (key p) p) (ps @ q # qs) m) (key q) = Some q"
proof -
  let ?m = "omap_Set (key q) q (fold (\<lambda>p. omap_Set (key p) p) ps m)"
  have "fold (\<lambda>p. omap_Set (key p) p) (ps @ q # qs) m = fold (\<lambda>p. omap_Set (key p) p) qs ?m"
    by simp
  moreover have "map_of (fold (\<lambda>p. omap_Set (key p) p) qs ?m) (key q) = map_of ?m (key q)"
    using assms by (rule map_of_fold_untouched)
  moreover have "map_of ?m (key q) = Some q" by (simp add: map_of_omap_Set_at)
  ultimately show ?thesis by simp
qed

lemma filter_distinct_key:
  assumes "distinct (map fst m)" and "map_of m n = Some q"
  shows "filter (\<lambda>e. fst e = n) m = [(n, q)]"
  using assms
proof (induction m)
  case Nil
  then show ?case by simp
next
  case (Cons a m)
  obtain k' v' where a: "a = (k', v')" by (cases a)
  from Cons.prems(1) a have nk: "k' \<notin> set (map fst m)" and d: "distinct (map fst m)"
    by simp_all
  show ?case
  proof (cases "k' = n")
    case True
    with Cons.prems(2) a have vq: "v' = q" by simp
    from nk True have "\<forall>e \<in> set m. fst e \<noteq> n" by auto
    then have "filter (\<lambda>e. fst e = n) m = []" by (simp add: filter_empty_conv)
    with True a vq show ?thesis by simp
  next
    case False
    with Cons.prems(2) a have "map_of m n = Some q" by simp
    from Cons.IH [OF d this] False a show ?thesis by simp
  qed
qed

lemma valid_split_at_key:
  assumes "k |\<in>| fmdom raw" and "finalParam wl k (the (fmlookup raw k)) = Some q"
      and "\<forall>k'. k' |\<in>| fmdom raw \<and> k < k' \<longrightarrow>
             (\<forall>p. finalParam wl k' (the (fmlookup raw k')) = Some p \<longrightarrow> Name p \<noteq> Name q)"
  shows "\<exists>ps qs. validInKeyOrder wl raw = ps @ q # qs \<and> (\<forall>p \<in> set qs. Name p \<noteq> Name q)"
proof -
  let ?ks = "sorted_list_of_fset (fmdom raw)"
  let ?g = "\<lambda>k. finalParam wl k (the (fmlookup raw k))"
  from assms(1) have "k \<in> set ?ks" by simp
  then obtain as bs where ks: "?ks = as @ k # bs" by (meson split_list)
  have s: "sorted (as @ k # bs)" and d: "distinct (as @ k # bs)"
    using keys_sorted [of "fmdom raw"] keys_distinct [of "fmdom raw"] ks by simp_all
  have mem: "set bs \<subseteq> fset (fmdom raw)"
    using sorted_list_of_fset_simps(1) [of "fmdom raw"] ks by auto
  have gt: "\<forall>b \<in> set bs. k < b" using s d by (auto simp: sorted_append less_le)
  have "validInKeyOrder wl raw = List.map_filter ?g as @ q # List.map_filter ?g bs"
    by (simp add: validInKeyOrder_def ks List.map_filter_def assms(2))
  moreover have "\<forall>p \<in> set (List.map_filter ?g bs). Name p \<noteq> Name q"
  proof
    fix p assume "p \<in> set (List.map_filter ?g bs)"
    then obtain b where b: "b \<in> set bs" and gb: "?g b = Some p"
      by (auto simp: List.map_filter_def)
    from b gt mem have "b |\<in>| fmdom raw \<and> k < b" by auto
    with assms(3) gb show "Name p \<noteq> Name q" by blast
  qed
  ultimately show ?thesis by blast
qed

lemma named_omap_Set:
  "\<forall>e \<in> set m. fst e = Name (snd e) \<Longrightarrow>
   \<forall>e \<in> set (omap_Set (Name p) p m). fst e = Name (snd e)"
proof (induction m)
  case Nil
  then show ?case by simp
next
  case (Cons a m)
  obtain k' v' where a: "a = (k', v')" by (cases a)
  from Cons.prems have "\<forall>e \<in> set m. fst e = Name (snd e)" by simp
  then have ih: "\<forall>e \<in> set (omap_Set (Name p) p m). fst e = Name (snd e)" by (rule Cons.IH)
  from Cons.prems a have ka: "k' = Name v'" by simp
  show ?case
  proof (cases "k' = Name p")
    case True
    with a Cons.prems show ?thesis by simp
  next
    case False
    with a ih ka show ?thesis by simp
  qed
qed

lemma fold_omap_Set_named:
  "\<forall>e \<in> set m. fst e = Name (snd e) \<Longrightarrow>
   \<forall>e \<in> set (fold (\<lambda>p. omap_Set (Name p) p) ps m). fst e = Name (snd e)"
proof (induction ps arbitrary: m)
  case Nil
  then show ?case unfolding fold_simps id_apply .
next
  case (Cons p ps)
  have "\<forall>e \<in> set (omap_Set (Name p) p m). fst e = Name (snd e)"
    using Cons.prems by (rule named_omap_Set)
  from Cons.IH [OF this] show ?case unfolding fold_simps comp_apply .
qed

lemma filter_single_split:
  assumes "filter P l = [x]"
  shows "\<exists>xs ys. l = xs @ x # ys \<and> (\<forall>q \<in> set xs \<union> set ys. \<not> P q)"
proof -
  from assms obtain us vs where l: "l = us @ x # vs" and us: "\<forall>u \<in> set us. \<not> P u"
    and vs: "[] = filter P vs"
    unfolding filter_eq_Cons_iff by blast
  from vs have "\<forall>v \<in> set vs. \<not> P v" by (metis filter_empty_conv)
  with l us show ?thesis by blast
qed

lemma valid_params_of_Build:
  assumes "Build wl raw = (flt, rej, None)"
  shows "fst (getValidQueryParams wl (getOrderedGetParams raw))
           = fold (\<lambda>p. omap_Set (Name p) p) (validInKeyOrder wl raw) []"
proof -
  from assms have e: "snd (snd (Build wl raw)) = None" by simp
  then have ne: "sorted_list_of_fmap raw \<noteq> []"
    and ok: "firstError (sorted_list_of_fmap raw) = None"
    by (simp_all add: Build_error split: if_splits)
  show ?thesis
    unfolding getValidQueryParams_def getOrderedGetParams_eq validLoop_eq Let_def
      omap_Len_def omap_Pairs_def omap_New_def
    using ne ok by (simp add: validUpTo_fold valid_of_sorted_fmap)
qed

lemma entry_of_last_key:
  assumes "Build wl raw = (flt, rej, None)"
      and "vp = fst (getValidQueryParams wl (getOrderedGetParams raw))"
      and "k |\<in>| fmdom raw"
      and "finalParam wl k (the (fmlookup raw k)) = Some p"
      and "\<forall>k'. k' |\<in>| fmdom raw \<and> k < k' \<longrightarrow>
             (\<forall>q. finalParam wl k' (the (fmlookup raw k')) = Some q \<longrightarrow> Name q \<noteq> Name p)"
  shows "flt = buildQueryFilters vp"
    and "distinct (map fst vp)"
    and "\<forall>e \<in> set vp. fst e = Name (snd e)"
    and "distinct (map Name (map snd vp))"
    and "filter (\<lambda>q. Name q = Name p) (map snd vp) = [p]"
    and "set (map snd vp) \<subseteq> set (validInKeyOrder wl raw)"
proof -
  let ?fold = "fold (\<lambda>p. omap_Set (Name p) p) (validInKeyOrder wl raw) []"
  have vp: "vp = ?fold" unfolding assms(2) using assms(1) by (rule valid_params_of_Build)
  show flt: "flt = buildQueryFilters vp"
    using Build_success_filter [OF assms(1)] vp by simp
  show inv: "distinct (map fst vp)"
    unfolding vp by (rule fold_omap_Set_distinct_keys) simp
  show named: "\<forall>e \<in> set vp. fst e = Name (snd e)"
    unfolding vp by (rule fold_omap_Set_named) simp
  have keys: "map fst vp = map (\<lambda>e. Name (snd e)) vp"
    by (rule map_ext) (use named in blast)
  from inv show "distinct (map Name (map snd vp))" unfolding keys by (simp add: comp_def)
  from valid_split_at_key [OF assms(3,4,5)] obtain ps qs where
    "validInKeyOrder wl raw = ps @ p # qs" and "\<forall>q \<in> set qs. Name q \<noteq> Name p" by blast
  then have "map_of vp (Name p) = Some p"
    unfolding vp using map_of_fold_last [of qs Name p ps "[]"] by simp
  with inv have one: "filter (\<lambda>e. fst e = Name p) vp = [(Name p, p)]"
    by (rule filter_distinct_key)
  have "filter (\<lambda>e. Name (snd e) = Name p) vp = filter (\<lambda>e. fst e = Name p) vp"
    by (rule filter_cong [OF refl]) (use named in auto)
  with one have "filter (\<lambda>e. Name (snd e) = Name p) vp = [(Name p, p)]" by simp
  then have "map snd (filter ((\<lambda>q. Name q = Name p) \<circ> snd) vp) = [p]" by (simp add: comp_def)
  then show "filter (\<lambda>q. Name q = Name p) (map snd vp) = [p]" by (simp only: filter_map)
  show "set (map snd vp) \<subseteq> set (validInKeyOrder wl raw)"
    unfolding vp using fold_omap_Set_values [of Name "validInKeyOrder wl raw" "[]"] by simp
qed

lemma valid_not_rejected:
  assumes "fst (snd (Build wl raw)) = Some rm" and "k |\<in>| fmdom raw"
      and "finalParam wl k (the (fmlookup raw k)) = Some p"
  shows "k |\<notin>| fmdom rm"
proof
  assume "k |\<in>| fmdom rm"
  then obtain v where v: "fmlookup rm k = Some v" by (auto simp: fmlookup_dom_iff)
  from Build_rejected_sound [OF assms(1) v]
  have "fmlookup raw k = Some v"
    and "\<exists>fp. splitParamName k v = Inr fp \<and> wl (Name fp) = None" by simp_all
  then have "finalParam wl k (the (fmlookup raw k)) = None"
    by (auto simp: finalParam_def)
  with assms(3) show False by simp
qed

text \<open>
  Claim C9. Let \<open>Build\<close> return no error, and let two distinct raw keys \<open>k1 < k2\<close> both
  parse to whitelisted columns with the same final name, \<open>k2\<close> being the last key in sorted
  order with that name. Let \<open>ps\<close> be the valid parameters in their order. The fragment is
  the SQL of \<open>ps\<close> joined with \<open>AND\<close> and the bind values are the values of \<open>ps\<close>, one
  after the other; no two parameters of \<open>ps\<close> have the same final name, and the only one
  with the shared name is the parameter of \<open>k2\<close>. So the fragment holds exactly one
  predicate for that name, that of \<open>k2\<close>, between the predicates of the parameters with
  other names, and the bind values are the values of those parameters and of \<open>k2\<close>: the
  parameter of \<open>k1\<close> has been overwritten and contributes neither a predicate nor bind
  values. Neither key is recorded in the rejected parameters. (A value of the overwritten
  parameter still occurs among the bind values when a surviving parameter has an equal
  value, as the counterexample shows.)
\<close>

theorem colliding_names_last_wins:
  assumes "Build wl raw = (flt, rej, None)"
      and "ps = map snd (fst (getValidQueryParams wl (getOrderedGetParams raw)))"
      and "k1 |\<in>| fmdom raw" and "k2 |\<in>| fmdom raw" and "k1 < k2"
      and "finalParam wl k1 (the (fmlookup raw k1)) = Some p1"
      and "finalParam wl k2 (the (fmlookup raw k2)) = Some p2"
      and "Name p1 = Name p2"
      and "\<forall>k. k |\<in>| fmdom raw \<and> k2 < k \<longrightarrow>
             (\<forall>p. finalParam wl k (the (fmlookup raw k)) = Some p \<longrightarrow> Name p \<noteq> Name p2)"
  shows "SqlFilters flt = Join (map Sql ps) '' AND ''
       \<and> PlaceholderValues flt = concat (map Values ps)
       \<and> set ps \<subseteq> set (validInKeyOrder wl raw)
       \<and> distinct (map Name ps)
       \<and> filter (\<lambda>q. Name q = Name p2) ps = [p2]
       \<and> (p1 \<noteq> p2 \<longrightarrow> p1 \<notin> set ps)
       \<and> (\<exists>xs ys. ps = xs @ p2 # ys \<and> (\<forall>q \<in> set xs \<union> set ys. Name q \<noteq> Name p2) \<and>
              SqlFilters flt = Join (map Sql xs @ [Sql p2] @ map Sql ys) '' AND '' \<and>
              PlaceholderValues flt
                = concat (map Values xs) @ Values p2 @ concat (map Values ys))
       \<and> (\<forall>rm. rej = Some rm \<longrightarrow> k1 |\<notin>| fmdom rm \<and> k2 |\<notin>| fmdom rm)"
proof -
  let ?vp = "fst (getValidQueryParams wl (getOrderedGetParams raw))"
  note facts = entry_of_last_key [OF assms(1) refl assms(4,7,9)]
  have ps: "ps = map snd ?vp" by (rule assms(2))
  have flt: "flt = buildQueryFilters ?vp" by (rule facts(1))
  have sql: "SqlFilters flt = Join (map Sql ps) '' AND ''"
    unfolding flt ps by (simp add: buildQueryFilters_eq comp_def)
  have vals: "PlaceholderValues flt = concat (map Values ps)"
    unfolding flt ps by (simp add: buildQueryFilters_eq comp_def)
  have sub: "set ps \<subseteq> set (validInKeyOrder wl raw)" unfolding ps by (rule facts(6))
  have dist: "distinct (map Name ps)" unfolding ps by (rule facts(4))
  have one: "filter (\<lambda>q. Name q = Name p2) ps = [p2]" unfolding ps by (rule facts(5))
  have lost: "p1 \<notin> set ps" if "p1 \<noteq> p2"
  proof
    assume "p1 \<in> set ps"
    with assms(8) have "p1 \<in> set (filter (\<lambda>q. Name q = Name p2) ps)" by simp
    with one that show False by simp
  qed
  from filter_single_split [OF one] obtain xs ys where
    split: "ps = xs @ p2 # ys" and other: "\<forall>q \<in> set xs \<union> set ys. Name q \<noteq> Name p2"
    by blast
  have sql': "SqlFilters flt = Join (map Sql xs @ [Sql p2] @ map Sql ys) '' AND ''"
    unfolding sql split by simp
  have vals': "PlaceholderValues flt = concat (map Values xs) @ Values p2 @ concat (map Values ys)"
    unfolding vals split by simp
  have rejd: "k1 |\<notin>| fmdom rm \<and> k2 |\<notin>| fmdom rm" if "rej = Some rm" for rm
  proof -
    from that assms(1) have r: "fst (snd (Build wl raw)) = Some rm" by simp
    from valid_not_rejected [OF r assms(3,6)] valid_not_rejected [OF r assms(4,7)]
    show ?thesis by simp
  qed
  from split other sql' vals'
  have ex: "\<exists>xs ys. ps = xs @ p2 # ys \<and> (\<forall>q \<in> set xs \<union> set ys. Name q \<noteq> Name p2) \<and>
              SqlFilters flt = Join (map Sql xs @ [Sql p2] @ map Sql ys) '' AND '' \<and>
              PlaceholderValues flt
                = concat (map Values xs) @ Values p2 @ concat (map Values ys)"
    by blast
  from sql vals sub dist one lost ex rejd show ?thesis by blast
qed

theorem colliding_names_last_wins_witness:
  "Build [''col'' \<mapsto> (\<lambda>s. s), ''zcol'' \<mapsto> (\<lambda>s. s)]
     (fmupd ''col'' [''1''] (fmupd ''col__in'' [''2'', ''3''] (fmupd ''zcol'' [''4''] fmempty)))
     = (\<lparr>SqlFilters = ''col IN (?,?) AND zcol = ?'', PlaceholderValues = [''2'', ''3'', ''4'']\<rparr>,
        None, None) \<and>
   filter (\<lambda>q. Name q = ''col'')
     (map snd (fst (getValidQueryParams [''col'' \<mapsto> (\<lambda>s. s), ''zcol'' \<mapsto> (\<lambda>s. s)]
        (getOrderedGetParams
          (fmupd ''col'' [''1''] (fmupd ''col__in'' [''2'', ''3'']
            (fmupd ''zcol'' [''4''] fmempty)))))))
     = [\<lparr>Name = ''col'', QueryToken = ''IN'', Values = [''2'', ''3'']\<rparr>] \<and>
   \<lparr>Name = ''col'', QueryToken = ''IN'', Values = [''1'']\<rparr>
     \<notin> set (map snd (fst (getValidQueryParams [''col'' \<mapsto> (\<lambda>s. s), ''zcol'' \<mapsto> (\<lambda>s. s)]
        (getOrderedGetParams
          (fmupd ''col'' [''1''] (fmupd ''col__in'' [''2'', ''3'']
            (fmupd ''zcol'' [''4''] fmempty)))))))"
proof -
  let ?wl = "[''col'' \<mapsto> (\<lambda>s. s), ''zcol'' \<mapsto> (\<lambda>s::string. s)]"
  let ?raw = "fmupd ''col'' [''1''] (fmupd ''col__in'' [''2'', ''3'']
                (fmupd ''zcol'' [''4''] fmempty))"
  let ?p1 = "\<lparr>Name = ''col'', QueryToken = ''IN'', Values = [''1'']\<rparr>"
  let ?p2 = "\<lparr>Name = ''col'', QueryToken = ''IN'', Values = [''2'', ''3'']\<rparr>"
  let ?pz = "\<lparr>Name = ''zcol'', QueryToken = ''IN'', Values = [''4'']\<rparr>"
  have b: "Build ?wl ?raw
     = (\<lparr>SqlFilters = ''col IN (?,?) AND zcol = ?'', PlaceholderValues = [''2'', ''3'', ''4'']\<rparr>,
        None, None)"
    by code_simp
  have k1: "''col'' |\<in>| fmdom ?raw" and k2: "''col__in'' |\<in>| fmdom ?raw" by simp_all
  have lt: "(''col'' :: string) < ''col__in''" by simp
  have f1: "finalParam ?wl ''col'' (the (fmlookup ?raw ''col'')) = Some ?p1" by code_simp
  have f2: "finalParam ?wl ''col__in'' (the (fmlookup ?raw ''col__in'')) = Some ?p2"
    by code_simp
  have fz: "finalParam ?wl ''zcol'' [''4''] = Some ?pz" by code_simp
  have n: "Name ?p1 = Name ?p2" by simp
  have last: "\<forall>k. k |\<in>| fmdom ?raw \<and> ''col__in'' < k \<longrightarrow>
             (\<forall>p. finalParam ?wl k (the (fmlookup ?raw k)) = Some p \<longrightarrow> Name p \<noteq> Name ?p2)"
    using fz by auto
  have d: "?p1 \<noteq> ?p2" by simp
  from colliding_names_last_wins [OF b refl k1 k2 lt f1 f2 n last] d
  have "filter (\<lambda>q. Name q = Name ?p2)
          (map snd (fst (getValidQueryParams ?wl (getOrderedGetParams ?raw)))) = [?p2]"
    and "?p1 \<notin> set (map snd (fst (getValidQueryParams ?wl (getOrderedGetParams ?raw))))"
    by blast+
  with b show ?thesis by simp
qed

theorem colliding_names_last_wins_counterexample:
  "finalParam [''col'' \<mapsto> (\<lambda>s. s)] ''col'' [''1'']
     = Some \<lparr>Name = ''col'', QueryToken = ''IN'', Values = [''1'']\<rparr> \<and>
   finalParam [''col'' \<mapsto> (\<lambda>s. s)] ''col__in'' [''1'', ''2'']
     = Some \<lparr>Name = ''col'', QueryToken = ''IN'', Values = [''1'', ''2'']\<rparr> \<and>
   Build [''col'' \<mapsto> (\<lambda>s. s)]
     (fmupd ''col'' [''1''] (fmupd ''col__in'' [''1'', ''2''] fmempty))
     = (\<lparr>SqlFilters = ''col IN (?,?)'', PlaceholderValues = [''1'', ''2'']\<rparr>, None, None) \<and>
   ''1'' \<in> set [''1'', ''2'']"
proof -
  have "finalParam [''col'' \<mapsto> (\<lambda>s. s)] ''col'' [''1'']
     = Some \<lparr>Name = ''col'', QueryToken = ''IN'', Values = [''1'']\<rparr>" by code_simp
  moreover have "finalParam [''col'' \<mapsto> (\<lambda>s. s)] ''col__in'' [''1'', ''2'']
     = Some \<lparr>Name = ''col'', QueryToken = ''IN'', Values = [''1'', ''2'']\<rparr>" by code_simp
  moreover have "Build [''col'' \<mapsto> (\<lambda>s. s)]
     (fmupd ''col'' [''1''] (fmupd ''col__in'' [''1'', ''2''] fmempty))
     = (\<lparr>SqlFilters = ''col IN (?,?)'', PlaceholderValues = [''1'', ''2'']\<rparr>, None, None)"
    by code_simp
  ultimately show ?thesis by simp
qed

section \<open>The LIKE operator\<close>

text \<open>
  Claim C6. Let \<open>c\<close> be a column such that the separator does not occur in \<open>c\<close> followed
  by an underscore, and \<open>k\<close> the key \<open>c__like\<close>. With \<open>c\<close> in the whitelist (rewrite
  function \<open>f\<close>) and exactly one value \<open>v\<close>, the parameter enters the valid parameters with
  the SQL \<open>LOWER(f c) LIKE CONCAT('%', ?, '%')\<close> and the values \<open>[v]\<close>; a request that holds
  only this parameter returns exactly this fragment with the bind values \<open>[v]\<close>; and in
  every request on which \<open>Build\<close> returns no error and in which no later key has the same
  final name, the fragment holds this SQL as the one predicate for that name, joined with
  \<open>AND\<close> between the predicates of the parameters before and after it, with \<open>v\<close> at the
  same place among the bind values. With more than one value, a request that holds only
  this parameter returns the error "like operator only supports single value"; every
  request that holds it returns an error and the zero filter; and the error is that one
  when every key sorted before it parses. (An earlier key that fails to parse, a later key
  with the same final name, or a column that ends in an underscore change the outcome, as
  the counterexample shows.)
\<close>

theorem like_single_value:
  assumes "\<not> Contains (c @ ''_'') OPERATOR_SEPARATOR"
      and "k = c @ OPERATOR_SEPARATOR @ OPERATOR_LIKE"
  shows "(\<forall>f. wl c = Some f \<longrightarrow>
            finalParam wl k [v]
              = Some \<lparr>Name = f c, QueryToken = QUERY_TOKEN_LIKE, Values = [v]\<rparr> \<and>
            Sql \<lparr>Name = f c, QueryToken = QUERY_TOKEN_LIKE, Values = [v]\<rparr>
              = ''LOWER('' @ f c @ '') LIKE CONCAT('%', ?, '%')'' \<and>
            Build wl (fmupd k [v] fmempty) =
              (\<lparr>SqlFilters = ''LOWER('' @ f c @ '') LIKE CONCAT('%', ?, '%')'',
                PlaceholderValues = [v]\<rparr>, None, None))
       \<and> (\<forall>f raw flt rej.
            wl c = Some f \<and> Build wl raw = (flt, rej, None) \<and> fmlookup raw k = Some [v] \<and>
            (\<forall>k'. k' |\<in>| fmdom raw \<and> k < k' \<longrightarrow>
               (\<forall>q. finalParam wl k' (the (fmlookup raw k')) = Some q \<longrightarrow> Name q \<noteq> f c)) \<longrightarrow>
            (\<exists>xs ys.
               map snd (fst (getValidQueryParams wl (getOrderedGetParams raw)))
                 = xs @ \<lparr>Name = f c, QueryToken = QUERY_TOKEN_LIKE, Values = [v]\<rparr> # ys \<and>
               (\<forall>q \<in> set xs \<union> set ys. Name q \<noteq> f c) \<and>
               SqlFilters flt
                 = Join (map Sql xs @ [''LOWER('' @ f c @ '') LIKE CONCAT('%', ?, '%')'']
                           @ map Sql ys) '' AND '' \<and>
               PlaceholderValues flt
                 = concat (map Values xs) @ [v] @ concat (map Values ys)))
       \<and> (1 < length vs \<longrightarrow>
            Build wl (fmupd k vs fmempty) =
              (Filter_zero, Some fmempty,
               Some (Errorf ''like operator only supports single value'')))
       \<and> (\<forall>raw. k |\<in>| fmdom raw \<and> 1 < length (the (fmlookup raw k)) \<longrightarrow>
            fst (Build wl raw) = Filter_zero \<and> snd (snd (Build wl raw)) \<noteq> None)
       \<and> (\<forall>raw. k |\<in>| fmdom raw \<and> 1 < length (the (fmlookup raw k)) \<and>
              (\<forall>k'. k' |\<in>| fmdom raw \<and> k' < k \<longrightarrow>
                 (\<exists>fp. splitParamName k' (the (fmlookup raw k')) = Inr fp)) \<longrightarrow>
            snd (snd (Build wl raw)) =
              Some (Errorf ''like operator only supports single value''))"
proof -
  from assms(1) have nc: "\<not> Contains (c @ ''_'') ''__''" by (simp add: OPERATOR_SEPARATOR_def)
  have "Split (c @ ''__'' @ ''like'') ''__'' = c # Split ''like'' ''__''"
    using nc by (rule Split_column_prefix)
  then have sp: "Split k OPERATOR_SEPARATOR = [c, OPERATOR_LIKE]"
    unfolding assms(2) by (simp add: OPERATOR_SEPARATOR_def OPERATOR_LIKE_def)
  have op: "OPERATORS OPERATOR_LIKE = Some QUERY_TOKEN_LIKE"
    by (simp add: OPERATORS_def OPERATOR_LIKE_def OPERATOR_IN_def OPERATOR_NOT_IN_def)
  have ne: "OPERATOR_LIKE \<noteq> []" by (simp add: OPERATOR_LIKE_def)
  have one: "splitParamName k [v] = Inr \<lparr>Name = c, QueryToken = QUERY_TOKEN_LIKE, Values = [v]\<rparr>"
    by (simp add: splitParamName_two [OF sp] op newFilterParam_def ne)
  have many: "splitParamName k ws = Inl (Errorf ''like operator only supports single value'')"
    if "1 < length ws" for ws
  proof -
    from that have "ws \<noteq> []" by auto
    with that show ?thesis
      by (simp add: splitParamName_two [OF sp] op newFilterParam_def ne)
  qed
  have sql: "Sql \<lparr>Name = n, QueryToken = QUERY_TOKEN_LIKE, Values = [v]\<rparr>
               = ''LOWER('' @ n @ '') LIKE CONCAT('%', ?, '%')''" for n
    by (simp add: Sql_def QUERY_TOKEN_LIKE_def QUERY_TOKEN_IN_def QUERY_TOKEN_NOT_IN_def)
  have fin: "finalParam wl k [v]
               = Some \<lparr>Name = f c, QueryToken = QUERY_TOKEN_LIKE, Values = [v]\<rparr>"
    if "wl c = Some f" for f
    using that by (simp add: finalParam_def one)
  have A: "\<forall>f. wl c = Some f \<longrightarrow>
            finalParam wl k [v]
              = Some \<lparr>Name = f c, QueryToken = QUERY_TOKEN_LIKE, Values = [v]\<rparr> \<and>
            Sql \<lparr>Name = f c, QueryToken = QUERY_TOKEN_LIKE, Values = [v]\<rparr>
              = ''LOWER('' @ f c @ '') LIKE CONCAT('%', ?, '%')'' \<and>
            Build wl (fmupd k [v] fmempty) =
              (\<lparr>SqlFilters = ''LOWER('' @ f c @ '') LIKE CONCAT('%', ?, '%')'',
                PlaceholderValues = [v]\<rparr>, None, None)"
    by (simp add: fin sql Build_single one)
  have B: "\<exists>xs ys.
               map snd (fst (getValidQueryParams wl (getOrderedGetParams raw)))
                 = xs @ \<lparr>Name = f c, QueryToken = QUERY_TOKEN_LIKE, Values = [v]\<rparr> # ys \<and>
               (\<forall>q \<in> set xs \<union> set ys. Name q \<noteq> f c) \<and>
               SqlFilters flt
                 = Join (map Sql xs @ [''LOWER('' @ f c @ '') LIKE CONCAT('%', ?, '%')'']
                           @ map Sql ys) '' AND '' \<and>
               PlaceholderValues flt
                 = concat (map Values xs) @ [v] @ concat (map Values ys)"
    if w: "wl c = Some f" and b: "Build wl raw = (flt, rej, None)"
      and kv: "fmlookup raw k = Some [v]"
      and last: "\<forall>k'. k' |\<in>| fmdom raw \<and> k < k' \<longrightarrow>
               (\<forall>q. finalParam wl k' (the (fmlookup raw k')) = Some q \<longrightarrow> Name q \<noteq> f c)"
    for f and raw :: Values and flt rej
  proof -
    let ?p = "\<lparr>Name = f c, QueryToken = QUERY_TOKEN_LIKE, Values = [v]\<rparr>"
    let ?vp = "fst (getValidQueryParams wl (getOrderedGetParams raw))"
    from kv have k: "k |\<in>| fmdom raw" by (rule fmdomI)
    from kv fin [OF w] have fp: "finalParam wl k (the (fmlookup raw k)) = Some ?p" by simp
    from last have last': "\<forall>k'. k' |\<in>| fmdom raw \<and> k < k' \<longrightarrow>
               (\<forall>q. finalParam wl k' (the (fmlookup raw k')) = Some q \<longrightarrow> Name q \<noteq> Name ?p)"
      by simp
    note facts = entry_of_last_key [OF b refl k fp last']
    from filter_single_split [OF facts(5)] obtain xs ys where
      split: "map snd ?vp = xs @ ?p # ys"
      and other: "\<forall>q \<in> set xs \<union> set ys. Name q \<noteq> Name ?p" by blast
    have s1: "SqlFilters flt = Join (map Sql (map snd ?vp)) '' AND ''"
      unfolding facts(1) by (simp add: buildQueryFilters_eq comp_def)
    have s2: "PlaceholderValues flt = concat (map Values (map snd ?vp))"
      unfolding facts(1) by (simp add: buildQueryFilters_eq comp_def)
    have "SqlFilters flt
            = Join (map Sql xs @ [''LOWER('' @ f c @ '') LIKE CONCAT('%', ?, '%')'']
                      @ map Sql ys) '' AND ''"
      unfolding s1 split by (simp add: sql)
    moreover have "PlaceholderValues flt = concat (map Values xs) @ [v] @ concat (map Values ys)"
      unfolding s2 split by simp
    moreover from other have "\<forall>q \<in> set xs \<union> set ys. Name q \<noteq> f c" by simp
    ultimately show ?thesis using split by blast
  qed
  have C: "1 < length vs \<longrightarrow>
            Build wl (fmupd k vs fmempty) =
              (Filter_zero, Some fmempty,
               Some (Errorf ''like operator only supports single value''))"
    by (simp add: Build_single many)
  have D: "fst (Build wl raw) = Filter_zero \<and> snd (snd (Build wl raw)) \<noteq> None"
    if "k |\<in>| fmdom raw \<and> 1 < length (the (fmlookup raw k))" for raw :: Values
  proof -
    from that have k: "k |\<in>| fmdom raw" by simp
    from that have bad: "splitParamName k (the (fmlookup raw k))
                        = Inl (Errorf ''like operator only supports single value'')"
      using many by simp
    from Build_some_failure [OF k bad, of wl] Build_error_zero [of wl raw]
    show ?thesis by simp
  qed
  have E: "snd (snd (Build wl raw)) = Some (Errorf ''like operator only supports single value'')"
    if "k |\<in>| fmdom raw \<and> 1 < length (the (fmlookup raw k)) \<and>
              (\<forall>k'. k' |\<in>| fmdom raw \<and> k' < k \<longrightarrow>
                 (\<exists>fp. splitParamName k' (the (fmlookup raw k')) = Inr fp))"
    for raw :: Values
  proof -
    from that have k: "k |\<in>| fmdom raw"
      and first: "\<forall>k'. k' |\<in>| fmdom raw \<and> k' < k \<longrightarrow>
                 (\<exists>fp. splitParamName k' (the (fmlookup raw k')) = Inr fp)" by simp_all
    from that have bad: "splitParamName k (the (fmlookup raw k))
                        = Inl (Errorf ''like operator only supports single value'')"
      using many by simp
    from Build_first_failure [OF k first bad, of wl] show ?thesis by simp
  qed
  from A B C D E show ?thesis by blast
qed

theorem like_single_value_witness:
  "Build [''col1'' \<mapsto> (\<lambda>s. s), ''col2'' \<mapsto> (\<lambda>s. s)]
     (fmupd ''col1'' [''1''] (fmupd ''col2__like'' [''foo''] fmempty))
     = (\<lparr>SqlFilters = ''col1 = ? AND LOWER(col2) LIKE CONCAT('%', ?, '%')'',
         PlaceholderValues = [''1'', ''foo'']\<rparr>, None, None) \<and>
   (\<exists>xs ys.
      map snd (fst (getValidQueryParams [''col1'' \<mapsto> (\<lambda>s. s), ''col2'' \<mapsto> (\<lambda>s. s)]
        (getOrderedGetParams (fmupd ''col1'' [''1''] (fmupd ''col2__like'' [''foo''] fmempty)))))
        = xs @ \<lparr>Name = ''col2'', QueryToken = ''LIKE'', Values = [''foo'']\<rparr> # ys \<and>
      ''col1 = ? AND LOWER(col2) LIKE CONCAT('%', ?, '%')''
        = Join (map Sql xs @ [''LOWER(col2) LIKE CONCAT('%', ?, '%')''] @ map Sql ys) '' AND '' \<and>
      [''1'', ''foo''] = concat (map Values xs) @ [''foo''] @ concat (map Values ys)) \<and>
   snd (snd (Build [''col1'' \<mapsto> (\<lambda>s. s), ''col2'' \<mapsto> (\<lambda>s. s)]
     (fmupd ''col1'' [''1''] (fmupd ''col2__like'' [''foo'', ''bar''] fmempty))))
     = Some (Errorf ''like operator only supports single value'')"
proof -
  let ?wl = "[''col1'' \<mapsto> (\<lambda>s. s), ''col2'' \<mapsto> (\<lambda>s::string. s)]"
  let ?raw = "fmupd ''col1'' [''1''] (fmupd ''col2__like'' [''foo''] fmempty)"
  let ?raw2 = "fmupd ''col1'' [''1''] (fmupd ''col2__like'' [''foo'', ''bar''] fmempty)"
  let ?flt = "\<lparr>SqlFilters = ''col1 = ? AND LOWER(col2) LIKE CONCAT('%', ?, '%')'',
         PlaceholderValues = [''1'', ''foo'']\<rparr>"
  have h: "\<not> Contains (''col2'' @ ''_'') OPERATOR_SEPARATOR"
    by (simp add: OPERATOR_SEPARATOR_def)
  have kd: "''col2__like'' = ''col2'' @ OPERATOR_SEPARATOR @ OPERATOR_LIKE"
    by (simp add: OPERATOR_SEPARATOR_def OPERATOR_LIKE_def)
  note T = like_single_value [where c = "''col2''" and k = "''col2__like''" and wl = ?wl
      and v = "''foo''", OF h kd]
  note B = T [THEN conjunct2, THEN conjunct1, rule_format]
  note E = T [THEN conjunct2, THEN conjunct2, THEN conjunct2, THEN conjunct2, rule_format]
  have b: "Build ?wl ?raw = (?flt, None, None)" by code_simp
  have w: "?wl ''col2'' = Some (\<lambda>s. s)" by simp
  have kv: "fmlookup ?raw ''col2__like'' = Some [''foo'']" by simp
  have last: "\<forall>k'. k' |\<in>| fmdom ?raw \<and> ''col2__like'' < k' \<longrightarrow>
               (\<forall>q. finalParam ?wl k' (the (fmlookup ?raw k')) = Some q \<longrightarrow> Name q \<noteq> ''col2'')"
    by auto
  from B [OF conjI [OF w conjI [OF b conjI [OF kv last]]]]
  have ex: "\<exists>xs ys.
      map snd (fst (getValidQueryParams ?wl (getOrderedGetParams ?raw)))
        = xs @ \<lparr>Name = ''col2'', QueryToken = ''LIKE'', Values = [''foo'']\<rparr> # ys \<and>
      ''col1 = ? AND LOWER(col2) LIKE CONCAT('%', ?, '%')''
        = Join (map Sql xs @ [''LOWER(col2) LIKE CONCAT('%', ?, '%')''] @ map Sql ys) '' AND '' \<and>
      [''1'', ''foo''] = concat (map Values xs) @ [''foo''] @ concat (map Values ys)"
    by (simp add: QUERY_TOKEN_LIKE_def) blast
  have k2: "''col2__like'' |\<in>| fmdom ?raw2" by simp
  have len: "1 < length (the (fmlookup ?raw2 ''col2__like''))" by simp
  have p1: "\<exists>fp. splitParamName ''col1'' [''1''] = Inr fp"
    by (rule exI [of _ "\<lparr>Name = ''col1'', QueryToken = ''IN'', Values = [''1'']\<rparr>"]) code_simp
  then have first: "\<forall>k'. k' |\<in>| fmdom ?raw2 \<and> k' < ''col2__like'' \<longrightarrow>
                 (\<exists>fp. splitParamName k' (the (fmlookup ?raw2 k')) = Inr fp)"
    by auto
  from E [OF conjI [OF k2 conjI [OF len first]]]
  have err: "snd (snd (Build ?wl ?raw2))
               = Some (Errorf ''like operator only supports single value'')" .
  from b ex err show ?thesis by simp
qed

theorem like_single_value_counterexample:
  "Build [''col1'' \<mapsto> (\<lambda>s. s)]
     (fmupd ''a__zz'' [''1''] (fmupd ''col1__like'' [''foo'', ''bar''] fmempty))
     = (Filter_zero, Some fmempty, Some (ErrWrongOperator ''zz'' ''a__zz'')) \<and>
   Build [''col'' \<mapsto> (\<lambda>s. s)]
     (fmupd ''col__like'' [''foo''] (fmupd ''col__not_in'' [''1''] fmempty))
     = (\<lparr>SqlFilters = ''col <> ?'', PlaceholderValues = [''1'']\<rparr>, None, None) \<and>
   [''a_'' \<mapsto> (\<lambda>s. s)] ''a_'' = Some (\<lambda>s. s) \<and>
   Build [''a_'' \<mapsto> (\<lambda>s. s)] (fmupd (''a_'' @ ''__like'') [''foo''] fmempty)
     = (Filter_zero, Some fmempty, Some (ErrWrongOperator ''_like'' ''a___like''))"
proof -
  have "Build [''col1'' \<mapsto> (\<lambda>s. s)]
     (fmupd ''a__zz'' [''1''] (fmupd ''col1__like'' [''foo'', ''bar''] fmempty))
     = (Filter_zero, Some fmempty, Some (ErrWrongOperator ''zz'' ''a__zz''))"
    by code_simp
  moreover have "Build [''col'' \<mapsto> (\<lambda>s. s)]
     (fmupd ''col__like'' [''foo''] (fmupd ''col__not_in'' [''1''] fmempty))
     = (\<lparr>SqlFilters = ''col <> ?'', PlaceholderValues = [''1'']\<rparr>, None, None)"
    by code_simp
  moreover have "Build [''a_'' \<mapsto> (\<lambda>s. s)] (fmupd (''a_'' @ ''__like'') [''foo''] fmempty)
     = (Filter_zero, Some fmempty, Some (ErrWrongOperator ''_like'' ''a___like''))"
    by code_simp
  ultimately show ?thesis by simp
qed

end
